theory Spec2Isabelle
  imports Main "HOL-Library.AList"
begin

section \<open>JavaScript values used by dependencyUpdater.js\<close>

text \<open>
  A JSON object whose values are strings (the \<open>dependencies\<close>, \<open>devDependencies\<close> and
  \<open>peerDependencies\<close> mappings) is the association list of its own properties in
  \<open>Object.keys\<close> order; this is also what \<open>JSON.stringify\<close> writes. Keys that are
  canonical array indices, which a JavaScript engine lists first, are not distinguished
  from other keys.
\<close>

type_synonym obj = "(string \<times> string) list"

text \<open>
  What reading \<open>o[k]\<close> yields: \<open>undefined\<close>, a string that is an own property, or a
  function or object inherited from \<open>Object.prototype\<close>, which every object made by
  \<open>JSON.parse\<close>, by a literal or by a spread has as its prototype.
\<close>

datatype jsval = Undefined | Str string | Inherited

definition objectPrototype :: "string list" where
  "objectPrototype =
     [''constructor'', ''__defineGetter__'', ''__defineSetter__'', ''hasOwnProperty'',
      ''__lookupGetter__'', ''__lookupSetter__'', ''isPrototypeOf'', ''propertyIsEnumerable'',
      ''toString'', ''valueOf'', ''__proto__'', ''toLocaleString'']"

text \<open>
  Truthiness: \<open>undefined\<close> and the empty string are falsy, every other string and every
  function or object is truthy.
\<close>

definition truthy :: "jsval \<Rightarrow> bool" where
  "truthy x = (case x of Undefined \<Rightarrow> False | Str s \<Rightarrow> s \<noteq> [] | Inherited \<Rightarrow> True)"

text \<open>\<open>o[k]\<close>: the own property if there is one, else what the prototype has.\<close>

definition readProp :: "obj \<Rightarrow> string \<Rightarrow> jsval" where
  "readProp al k =
     (case map_of al k of
        Some s \<Rightarrow> Str s
      | None \<Rightarrow> if k \<in> set objectPrototype then Inherited else Undefined)"

text \<open>\<open>o?.[k]\<close> on an object that may be missing.\<close>

definition get :: "obj option \<Rightarrow> string \<Rightarrow> jsval" where
  "get ob k = (case ob of None \<Rightarrow> Undefined | Some al \<Rightarrow> readProp al k)"

text \<open>The own property \<open>k\<close> of an object that may be missing: the manifest's entry.\<close>

definition own :: "obj option \<Rightarrow> string \<Rightarrow> string option" where
  "own ob k = (case ob of None \<Rightarrow> None | Some al \<Rightarrow> map_of al k)"

text \<open>
  \<open>o[k] = v\<close> for a string \<open>v\<close>: an own property is overwritten in place, otherwise a
  new own property is appended, also when the prototype has a function of that name.
  Only \<open>__proto__\<close> differs: without an own property of that name the assignment calls
  the setter of \<open>Object.prototype\<close>, which ignores a string.
\<close>

definition assignProp :: "string \<Rightarrow> string \<Rightarrow> obj \<Rightarrow> obj" where
  "assignProp k v al =
     (if k = ''__proto__'' \<and> map_of al k = None then al else AList.update k v al)"

text \<open>\<open>o[k] = v\<close> on an object known to exist.\<close>

definition assign :: "string \<Rightarrow> string \<Rightarrow> obj option \<Rightarrow> obj option" where
  "assign k v ob = map_option (assignProp k v) ob"

text \<open>
  Object spread \<open>{...target, ...src}\<close>: every own property of \<open>src\<close> is defined on the
  result as an own property, whatever its name; spreading \<open>undefined\<close> copies nothing.
\<close>

definition spread :: "obj option \<Rightarrow> obj \<Rightarrow> obj" where
  "spread src target =
     (case src of None \<Rightarrow> target | Some al \<Rightarrow> fold (\<lambda>(k, v). AList.update k v) al target)"

section \<open>The semver package\<close>

text \<open>
  The script calls three functions of the npm package \<open>semver\<close>, which is not part of the
  repository. The program is modelled over an arbitrary implementation of them:
  \<open>valid\<close> returns the normalised version or \<open>null\<close>, \<open>prerelease\<close> returns the
  prerelease components or \<open>null\<close>, \<open>satisfies version range\<close> returns a boolean and
  never throws. The script never calls \<open>compare\<close> (1, 0 or -1 by precedence); it is
  the package's notion of one version being newer than another.
\<close>

record semver =
  valid :: "string \<Rightarrow> string option"
  prerelease :: "string \<Rightarrow> string list option"
  satisfies :: "string \<Rightarrow> string \<Rightarrow> bool"
  compare :: "string \<Rightarrow> string \<Rightarrow> int"

text \<open>\<open>newer lib a b\<close>: \<open>a\<close> has higher precedence than \<open>b\<close>.\<close>

definition newer :: "semver \<Rightarrow> string \<Rightarrow> string \<Rightarrow> bool" where
  "newer lib a b = (0 < compare lib a b)"

definition older :: "semver \<Rightarrow> string \<Rightarrow> string \<Rightarrow> bool" where
  "older lib a b = newer lib b a"

subsection \<open>A reference implementation of the strict grammar\<close>

text \<open>
  For concrete runs: versions \<open>MAJOR.MINOR.PATCH\<close> with optional \<open>-prerelease\<close> and
  \<open>+build\<close> as in semver.org 2.0.0, and the ranges \<open>""\<close>, \<open>*\<close>, \<open>X.Y.Z\<close> and
  \<open>^X.Y.Z\<close>. On these inputs it agrees with the package; the package also accepts a
  leading \<open>v\<close>, surrounding blanks and a larger range language, which \<open>npm_semver\<close>
  rejects.
\<close>

definition digit :: "char \<Rightarrow> bool" where
  "digit c = (c \<in> set ''0123456789'')"

definition identChar :: "char \<Rightarrow> bool" where
  "identChar c =
     (c \<in> set ''0123456789abcdefghijklmnopqrstuvwxyzABCDEFGHIJKLMNOPQRSTUVWXYZ-'')"

definition numericIdentifier :: "string \<Rightarrow> nat option" where
  "numericIdentifier s =
     (if s = [] \<or> \<not> list_all digit s \<or> (hd s = CHR ''0'' \<and> 1 < length s) then None
      else Some (foldl (\<lambda>n c. 10 * n + (of_char c - 48)) 0 s))"

definition prereleaseIdentifier :: "string \<Rightarrow> bool" where
  "prereleaseIdentifier s =
     (s \<noteq> [] \<and> list_all identChar s \<and> (list_all digit s \<longrightarrow> numericIdentifier s \<noteq> None))"

definition buildIdentifier :: "string \<Rightarrow> bool" where
  "buildIdentifier s = (s \<noteq> [] \<and> list_all identChar s)"

fun splitOn :: "char \<Rightarrow> string \<Rightarrow> string list" where
  "splitOn c [] = [[]]"
| "splitOn c (x # xs) =
     (if x = c then [] # splitOn c xs
      else (case splitOn c xs of [] \<Rightarrow> [[x]] | p # ps \<Rightarrow> (x # p) # ps))"

record SemVer =
  major :: nat
  minor :: nat
  patch :: nat
  pre :: "string list"

definition parse :: "string \<Rightarrow> SemVer option" where
  "parse s =
     (let noBuild = takeWhile (\<lambda>c. c \<noteq> CHR ''+'') s;
          buildPart = dropWhile (\<lambda>c. c \<noteq> CHR ''+'') s;
          core = takeWhile (\<lambda>c. c \<noteq> CHR ''-'') noBuild;
          prePart = dropWhile (\<lambda>c. c \<noteq> CHR ''-'') noBuild;
          preIds = (if prePart = [] then [] else splitOn (CHR ''.'') (tl prePart));
          buildIds = (if buildPart = [] then [] else splitOn (CHR ''.'') (tl buildPart))
      in case map numericIdentifier (splitOn (CHR ''.'') core) of
           [Some a, Some b, Some c] \<Rightarrow>
             if list_all prereleaseIdentifier preIds \<and> list_all buildIdentifier buildIds
             then Some \<lparr>major = a, minor = b, patch = c, pre = preIds\<rparr>
             else None
         | _ \<Rightarrow> None)"

text \<open>Precedence of the release triple: major, then minor, then patch.\<close>

definition tripleLess :: "SemVer \<Rightarrow> SemVer \<Rightarrow> bool" where
  "tripleLess a b =
     (major a < major b \<or>
      (major a = major b \<and> (minor a < minor b \<or> (minor a = minor b \<and> patch a < patch b))))"

text \<open>
  Precedence of prerelease tags: a numeric identifier is lower than an alphanumeric one,
  numeric ones compare as numbers and the others as ASCII strings, and a longer list wins
  over its prefix.
\<close>

fun compareText :: "nat list \<Rightarrow> nat list \<Rightarrow> int" where
  "compareText [] [] = 0"
| "compareText [] (b # bs) = -1"
| "compareText (a # as) [] = 1"
| "compareText (a # as) (b # bs) =
     (if a < b then -1 else if b < a then 1 else compareText as bs)"

definition compareIdentifiers :: "string \<Rightarrow> string \<Rightarrow> int" where
  "compareIdentifiers a b =
     (case numericIdentifier a of
        Some m \<Rightarrow>
          (case numericIdentifier b of
             Some n \<Rightarrow> (if m < n then -1 else if n < m then 1 else 0)
           | None \<Rightarrow> -1)
      | None \<Rightarrow>
          (case numericIdentifier b of
             Some n \<Rightarrow> 1
           | None \<Rightarrow> compareText (map of_char a) (map of_char b)))"

fun comparePre :: "string list \<Rightarrow> string list \<Rightarrow> int" where
  "comparePre [] [] = 0"
| "comparePre [] (b # bs) = -1"
| "comparePre (a # as) [] = 1"
| "comparePre (a # as) (b # bs) =
     (if compareIdentifiers a b = 0 then comparePre as bs else compareIdentifiers a b)"

text \<open>
  \<open>semver.compare\<close>: the release triple first; with equal triples a version without
  prerelease tag is the higher one. The package throws on a string that is not a
  version; here the result is 0.
\<close>

definition npm_compare :: "string \<Rightarrow> string \<Rightarrow> int" where
  "npm_compare a b =
     (case parse a of
        None \<Rightarrow> 0
      | Some x \<Rightarrow>
          (case parse b of
             None \<Rightarrow> 0
           | Some y \<Rightarrow>
               if tripleLess x y then -1
               else if tripleLess y x then 1
               else if pre x = [] \<and> pre y = [] then 0
               else if pre x = [] then 1
               else if pre y = [] then -1
               else comparePre (pre x) (pre y)))"

text \<open>\<open>^X.Y.Z\<close>: changes that do not modify the left-most non-zero component.\<close>

definition caret :: "SemVer \<Rightarrow> SemVer \<Rightarrow> bool" where
  "caret v r =
     (\<not> tripleLess v r \<and>
      (if 0 < major r then major v = major r
       else if 0 < minor r then major v = 0 \<and> minor v = minor r
       else major v = 0 \<and> minor v = 0 \<and> patch v = patch r))"

definition npm_valid :: "string \<Rightarrow> string option" where
  "npm_valid s =
     (case parse s of None \<Rightarrow> None | Some v \<Rightarrow> Some (takeWhile (\<lambda>c. c \<noteq> CHR ''+'') s))"

definition npm_prerelease :: "string \<Rightarrow> string list option" where
  "npm_prerelease s =
     (case parse s of None \<Rightarrow> None | Some v \<Rightarrow> if pre v = [] then None else Some (pre v))"

definition npm_satisfies :: "string \<Rightarrow> string \<Rightarrow> bool" where
  "npm_satisfies version rng =
     (case parse version of
        None \<Rightarrow> False
      | Some v \<Rightarrow>
          pre v = [] \<and>
          (if rng = [] \<or> rng = ''*'' then True
           else if hd rng = CHR ''^''
           then (case parse (tl rng) of
                   None \<Rightarrow> False
                 | Some r \<Rightarrow> pre r = [] \<and> caret v r)
           else (case parse rng of
                   None \<Rightarrow> False
                 | Some r \<Rightarrow> pre r = [] \<and> \<not> tripleLess v r \<and> \<not> tripleLess r v)))"

definition npm_semver :: semver where
  "npm_semver =
     \<lparr>valid = npm_valid, prerelease = npm_prerelease, satisfies = npm_satisfies,
      compare = npm_compare\<rparr>"

section \<open>Registry metadata and the stable version list\<close>

record version_info =
  peerDependencies :: "obj option"

record metadata =
  versions :: "(string \<times> version_info) list option"

text \<open>The filter of lines 100 and 142: \<open>semver.valid(v) && semver.prerelease(v) === null\<close>.\<close>

definition stable :: "semver \<Rightarrow> string \<Rightarrow> bool" where
  "stable lib v =
     ((case valid lib v of None \<Rightarrow> False | Some s \<Rightarrow> s \<noteq> []) \<and> prerelease lib v = None)"

text \<open>Lines 99-101 and 141-143: \<open>Object.keys(versions).filter(...).reverse()\<close>.\<close>

definition stableVersions :: "semver \<Rightarrow> (string \<times> version_info) list \<Rightarrow> string list" where
  "stableVersions lib vs = rev (filter (stable lib) (map fst vs))"

section \<open>Command line, manifest and effects\<close>

text \<open>Lines 53-57: the flags and the first argument that is not a flag.\<close>

record options =
  useLatest :: bool
  showIncompatible :: bool
  autoUpdate :: bool
  mainPkgName :: "string option"

definition startsWith :: "string \<Rightarrow> string \<Rightarrow> bool" where
  "startsWith s p = (take (length p) s = p)"

definition parseArgs :: "string list \<Rightarrow> options" where
  "parseArgs args =
     \<lparr>useLatest = (''--latest'' \<in> set args),
      showIncompatible = (''--check-incompatibilities'' \<in> set args),
      autoUpdate = (''--autoupdate'' \<in> set args),
      mainPkgName = find (\<lambda>arg. \<not> startsWith arg ''--'') args\<rparr>"

text \<open>
  The two mappings of package.json that the script reads and writes; either may be
  missing from the file. The other fields of the file are never touched.
\<close>

record package_json =
  dependencies :: "obj option"
  devDependencies :: "obj option"

text \<open>
  The file package.json in the working directory: missing, not JSON, or a manifest.
\<close>

datatype disk_file = Missing | Unparseable | Manifest package_json

text \<open>
  A rejected promise or a thrown exception: \<open>fetchJson\<close> rejects on a network error or
  on a body that is not JSON, \<open>Object.keys(undefined)\<close> throws a TypeError,
  \<open>inquirer.prompt\<close> rejects when the prompt is closed, and \<open>JSON.parse\<close> of the
  manifest throws a SyntaxError.
\<close>

datatype error = NetworkError | JsonParseError | TypeError | PromptClosed | SyntaxError

text \<open>
  The registry answers \<open>fetchJson\<close> for a package name. The operator answers a list
  prompt about a package, given the choices.
\<close>

type_synonym registry = "string \<Rightarrow> error + metadata"

type_synonym inquirer = "string \<Rightarrow> string list \<Rightarrow> error + string"

text \<open>
  Everything the run does to the outside world, in order: console output, registry
  requests, prompts, exits, and \<open>WriteFile\<close> for a \<open>writeFileSync\<close> that succeeded.
\<close>

datatype event =
    Usage
  | NotFound
  | Exit nat
  | Fetching string
  | HttpGet string
  | NoStableVersions
  | Prompt string "string list"
  | Updating string string
  | Compatible string string
  | NotCompatible string string
  | Replaced string string
  | NoCompatibleVersion string
  | FailedToCheck string error
  | Uncaught error
  | WriteFile package_json
  | Updated

record state =
  packageJson :: package_json
  trace :: "event list"

definition emit :: "event \<Rightarrow> state \<Rightarrow> state" where
  "emit e s = s\<lparr>trace := trace s @ [e]\<rparr>"

section \<open>The run\<close>

text \<open>
  Lines 97-120. The target's metadata is fetched outside any \<open>try\<close>: a rejected fetch,
  a document without \<open>versions\<close> or a closed prompt ends the run with an uncaught
  rejection, and an empty stable list returns early. The result is the events so far and
  \<open>selectedMainVersion\<close> when there is one.
\<close>

definition selectTarget ::
  "semver \<Rightarrow> registry \<Rightarrow> inquirer \<Rightarrow> options \<Rightarrow> string \<Rightarrow> event list \<times> string option" where
  "selectTarget lib registry inquirer opts main =
     (case registry main of
        Inl err \<Rightarrow> ([Fetching main, HttpGet main, Uncaught err], None)
      | Inr metadata \<Rightarrow>
          (case versions metadata of
             None \<Rightarrow> ([Fetching main, HttpGet main, Uncaught TypeError], None)
           | Some vs \<Rightarrow>
               (case stableVersions lib vs of
                  [] \<Rightarrow> ([Fetching main, HttpGet main, NoStableVersions], None)
                | newest # rest \<Rightarrow>
                    if useLatest opts then ([Fetching main, HttpGet main], Some newest)
                    else
                      (case inquirer main (take 50 (newest # rest)) of
                         Inl err \<Rightarrow>
                           ([Fetching main, HttpGet main,
                             Prompt main (take 50 (newest # rest)), Uncaught err], None)
                       | Inr answer \<Rightarrow>
                           ([Fetching main, HttpGet main,
                             Prompt main (take 50 (newest # rest))], Some answer)))))"

text \<open>The string written for the target: \<open>useLatest ? `^${v}` : v\<close>.\<close>

definition targetRange :: "options \<Rightarrow> string \<Rightarrow> string" where
  "targetRange opts selectedMainVersion =
     (if useLatest opts then CHR ''^'' # selectedMainVersion else selectedMainVersion)"

text \<open>Lines 124-131.\<close>

definition applyTarget :: "string \<Rightarrow> string \<Rightarrow> package_json \<Rightarrow> package_json" where
  "applyTarget main v pj =
     (if truthy (get (dependencies pj) main)
      then pj\<lparr>dependencies := assign main v (dependencies pj)\<rparr>
      else if truthy (get (devDependencies pj) main)
      then pj\<lparr>devDependencies := assign main v (devDependencies pj)\<rparr>
      else pj\<lparr>dependencies :=
                 Some (assignProp main v (case dependencies pj of None \<Rightarrow> [] | Some d \<Rightarrow> d))\<rparr>)"

text \<open>Lines 81-86.\<close>

definition getAllDependencies :: "package_json \<Rightarrow> obj" where
  "getAllDependencies pj = spread (devDependencies pj) (spread (dependencies pj) [])"

text \<open>
  \<open>depMeta.versions[version].peerDependencies || {}\<close>; \<open>version\<close> is always one of the
  keys of \<open>vs\<close>.
\<close>

definition peerOf :: "(string \<times> version_info) list \<Rightarrow> string \<Rightarrow> obj" where
  "peerOf vs version =
     (case map_of vs version of
        None \<Rightarrow> []
      | Some info \<Rightarrow> (case peerDependencies info of None \<Rightarrow> [] | Some p \<Rightarrow> p))"

text \<open>
  Lines 148 and 163:
  \<open>!peer[mainPkgName] || semver.satisfies(selectedMainVersion, peer[mainPkgName])\<close>.
  When \<open>peer[mainPkgName]\<close> is an inherited function or object, the package fails to
  read it as a range, catches the TypeError and returns false.
\<close>

definition peerOk :: "semver \<Rightarrow> string \<Rightarrow> string \<Rightarrow> obj \<Rightarrow> bool" where
  "peerOk lib main selectedMainVersion peer =
     (\<not> truthy (readProp peer main) \<or>
      (case readProp peer main of
         Str r \<Rightarrow> satisfies lib selectedMainVersion r
       | Inherited \<Rightarrow> False
       | Undefined \<Rightarrow> False))"

text \<open>The loop of lines 145-154, with its \<open>break\<close> inside the peer check.\<close>

fun alreadyCompatible ::
  "semver \<Rightarrow> string \<Rightarrow> string \<Rightarrow> string \<Rightarrow> (string \<times> version_info) list \<Rightarrow> string list \<Rightarrow> bool" where
  "alreadyCompatible lib main sel installedRange vs [] = False"
| "alreadyCompatible lib main sel installedRange vs (version # rest) =
     (if peerOk lib main sel (peerOf vs version)
      then satisfies lib version installedRange
      else alreadyCompatible lib main sel installedRange vs rest)"

text \<open>Lines 161-164.\<close>

definition compatibleVersions ::
  "semver \<Rightarrow> string \<Rightarrow> string \<Rightarrow> (string \<times> version_info) list \<Rightarrow> string list" where
  "compatibleVersions lib main sel vs =
     filter (\<lambda>version. peerOk lib main sel (peerOf vs version)) (stableVersions lib vs)"

text \<open>Lines 184-188.\<close>

definition writeDep :: "string \<Rightarrow> string \<Rightarrow> package_json \<Rightarrow> package_json" where
  "writeDep dep selectedCompatible pj =
     (if truthy (get (dependencies pj) dep)
      then pj\<lparr>dependencies := assign dep selectedCompatible (dependencies pj)\<rparr>
      else if truthy (get (devDependencies pj) dep)
      then pj\<lparr>devDependencies := assign dep selectedCompatible (devDependencies pj)\<rparr>
      else pj)"

text \<open>
  One iteration of the loop of lines 135-196, for the key \<open>dep\<close> of \<open>allDeps\<close> and its
  value \<open>installedRange = allDeps[dep]\<close>. Every exception raised inside the \<open>try\<close> is
  caught at line 193 and logged; the manifest is assigned only after the last operation
  that can throw.
\<close>

definition checkDep ::
  "semver \<Rightarrow> registry \<Rightarrow> inquirer \<Rightarrow> options \<Rightarrow> string \<Rightarrow> string \<Rightarrow>
   string \<times> string \<Rightarrow> state \<Rightarrow> state" where
  "checkDep lib registry inquirer opts main sel entry s =
     (case entry of (dep, installedRange) \<Rightarrow>
        if dep = main then s
        else
          (case registry dep of
             Inl err \<Rightarrow> emit (FailedToCheck dep err) (emit (HttpGet dep) s)
           | Inr depMeta \<Rightarrow>
               (case versions depMeta of
                  None \<Rightarrow> emit (FailedToCheck dep TypeError) (emit (HttpGet dep) s)
                | Some vs \<Rightarrow>
                    if alreadyCompatible lib main sel installedRange vs (stableVersions lib vs)
                    then emit (Compatible dep installedRange) (emit (HttpGet dep) s)
                    else
                      (case compatibleVersions lib main sel vs of
                         [] \<Rightarrow>
                           if showIncompatible opts
                           then emit (NoCompatibleVersion dep) (emit (HttpGet dep) s)
                           else emit (HttpGet dep) s
                       | newest # rest \<Rightarrow>
                           if autoUpdate opts
                           then
                             (emit (Replaced dep newest)
                                (emit (NotCompatible dep installedRange) (emit (HttpGet dep) s)))
                             \<lparr>packageJson := writeDep dep newest (packageJson s)\<rparr>
                           else
                             (case inquirer dep (take 20 (newest # rest)) of
                                Inl err \<Rightarrow>
                                  emit (FailedToCheck dep err)
                                    (emit (Prompt dep (take 20 (newest # rest)))
                                       (emit (NotCompatible dep installedRange)
                                          (emit (HttpGet dep) s)))
                              | Inr answer \<Rightarrow>
                                  (emit (Replaced dep answer)
                                     (emit (Prompt dep (take 20 (newest # rest)))
                                        (emit (NotCompatible dep installedRange)
                                           (emit (HttpGet dep) s))))
                                  \<lparr>packageJson := writeDep dep answer (packageJson s)\<rparr>)))))"

text \<open>
  Lines 88-200 for a manifest that was read and parsed: select the target, write it,
  merge both classes, visit every key of the merge in order, then write the file once.
\<close>

definition run ::
  "semver \<Rightarrow> registry \<Rightarrow> inquirer \<Rightarrow> options \<Rightarrow> string \<Rightarrow> package_json \<Rightarrow> state" where
  "run lib registry inquirer opts main pj =
     (case selectTarget lib registry inquirer opts main of
        (evs, None) \<Rightarrow> \<lparr>packageJson = pj, trace = evs\<rparr>
      | (evs, Some sel) \<Rightarrow>
          (let s0 = \<lparr>packageJson = applyTarget main (targetRange opts sel) pj,
                     trace = evs @ [Updating main (targetRange opts sel)]\<rparr>;
               allDeps = getAllDependencies (packageJson s0);
               s1 = fold (checkDep lib registry inquirer opts main sel) allDeps s0
           in emit Updated (emit (WriteFile (packageJson s1)) s1)))"

text \<open>
  The whole script. Lines 59-62 exit when \<open>mainPkgName\<close> is falsy (no argument other
  than flags, or an empty one), lines 90-93 exit when there is no package.json, and line 95
  throws when it is not JSON; otherwise the run starts.
\<close>

definition script ::
  "semver \<Rightarrow> registry \<Rightarrow> inquirer \<Rightarrow> string list \<Rightarrow> disk_file \<Rightarrow> event list" where
  "script lib registry inquirer args disk =
     (case mainPkgName (parseArgs args) of
        None \<Rightarrow> [Usage, Exit 1]
      | Some main \<Rightarrow>
          if main = [] then [Usage, Exit 1]
          else
            (case disk of
               Missing \<Rightarrow> [NotFound, Exit 1]
             | Unparseable \<Rightarrow> [Uncaught SyntaxError]
             | Manifest pj \<Rightarrow> trace (run lib registry inquirer (parseArgs args) main pj)))"

text \<open>
  The file on disk after a sequence of events: each \<open>writeFileSync\<close> replaces the whole
  content.
\<close>

definition persisted :: "disk_file \<Rightarrow> event list \<Rightarrow> disk_file" where
  "persisted disk tr = fold (\<lambda>e f. case e of WriteFile pj \<Rightarrow> Manifest pj | _ \<Rightarrow> f) tr disk"

section \<open>Notions used to state the properties\<close>

text \<open>The keys of a mapping that may be missing.\<close>

definition keysOf :: "obj option \<Rightarrow> string set" where
  "keysOf ob = (case ob of None \<Rightarrow> {} | Some al \<Rightarrow> fst ` set al)"

text \<open>
  Two manifests agree at a key: the same own entries in both classes, and the same classes
  present. Every read \<open>o?.[k]\<close> of the script then gives the same value in both.
\<close>

definition agreeAt :: "string \<Rightarrow> package_json \<Rightarrow> package_json \<Rightarrow> bool" where
  "agreeAt k pj pj' =
     (own (dependencies pj) k = own (dependencies pj') k \<and>
      own (devDependencies pj) k = own (devDependencies pj') k \<and>
      (dependencies pj = None) = (dependencies pj' = None) \<and>
      (devDependencies pj = None) = (devDependencies pj' = None))"

text \<open>\<open>JSON.parse\<close> never yields an object with a repeated key.\<close>

definition wellFormed :: "package_json \<Rightarrow> bool" where
  "wellFormed pj =
     ((case dependencies pj of None \<Rightarrow> True | Some al \<Rightarrow> distinct (map fst al)) \<and>
      (case devDependencies pj of None \<Rightarrow> True | Some al \<Rightarrow> distinct (map fst al)))"


definition isWrite :: "event \<Rightarrow> bool" where
  "isWrite e = (case e of WriteFile pj \<Rightarrow> True | _ \<Rightarrow> False)"

definition isPrompt :: "event \<Rightarrow> bool" where
  "isPrompt e = (case e of Prompt name choices \<Rightarrow> True | _ \<Rightarrow> False)"

text \<open>
  What one iteration decides, which does not depend on the manifest in memory: the events
  it emits and the version it assigns to the dependency, if any. Lemma
  \<open>checkDep_decide\<close> shows that \<open>checkDep\<close> is this decision applied to the state.
\<close>

definition decide ::
  "semver \<Rightarrow> registry \<Rightarrow> inquirer \<Rightarrow> options \<Rightarrow> string \<Rightarrow> string \<Rightarrow>
   string \<times> string \<Rightarrow> event list \<times> string option" where
  "decide lib registry inquirer opts main sel entry =
     (case entry of (dep, installedRange) \<Rightarrow>
        if dep = main then ([], None)
        else
          (case registry dep of
             Inl err \<Rightarrow> ([HttpGet dep, FailedToCheck dep err], None)
           | Inr depMeta \<Rightarrow>
               (case versions depMeta of
                  None \<Rightarrow> ([HttpGet dep, FailedToCheck dep TypeError], None)
                | Some vs \<Rightarrow>
                    if alreadyCompatible lib main sel installedRange vs (stableVersions lib vs)
                    then ([HttpGet dep, Compatible dep installedRange], None)
                    else
                      (case compatibleVersions lib main sel vs of
                         [] \<Rightarrow>
                           (if showIncompatible opts
                            then [HttpGet dep, NoCompatibleVersion dep]
                            else [HttpGet dep], None)
                       | newest # rest \<Rightarrow>
                           if autoUpdate opts
                           then ([HttpGet dep, NotCompatible dep installedRange,
                                  Replaced dep newest], Some newest)
                           else
                             (case inquirer dep (take 20 (newest # rest)) of
                                Inl err \<Rightarrow>
                                  ([HttpGet dep, NotCompatible dep installedRange,
                                    Prompt dep (take 20 (newest # rest)),
                                    FailedToCheck dep err], None)
                              | Inr answer \<Rightarrow>
                                  ([HttpGet dep, NotCompatible dep installedRange,
                                    Prompt dep (take 20 (newest # rest)),
                                    Replaced dep answer], Some answer))))))"

text \<open>The decision applied to the manifest in memory.\<close>

definition applyDecision ::
  "string \<times> string \<Rightarrow> event list \<times> string option \<Rightarrow> package_json \<Rightarrow> package_json" where
  "applyDecision entry d pj =
     (case snd d of None \<Rightarrow> pj | Some v \<Rightarrow> writeDep (fst entry) v pj)"

text \<open>
  The newest stable version of a registry document: among the keys that pass the filter,
  one that no other is newer than (the first such in document order).
\<close>

definition newestStable :: "semver \<Rightarrow> (string \<times> version_info) list \<Rightarrow> string option" where
  "newestStable lib vs =
     (case filter (stable lib) (map fst vs) of
        [] \<Rightarrow> None
      | v # rest \<Rightarrow> Some (fold (\<lambda>a b. if newer lib a b then a else b) rest v))"

text \<open>
  Claim C2 in the spec's words: the newest stable version alone decides. Its peer
  constraint on the target is absent or satisfied by the chosen target version, and it
  satisfies the installed range.
\<close>

definition newestVersionDecides ::
  "semver \<Rightarrow> string \<Rightarrow> string \<Rightarrow> string \<Rightarrow> (string \<times> version_info) list \<Rightarrow> bool" where
  "newestVersionDecides lib main sel installedRange vs =
     (case newestStable lib vs of
        None \<Rightarrow> False
      | Some newest \<Rightarrow>
          (case map_of (peerOf vs newest) main of
             None \<Rightarrow> True
           | Some p \<Rightarrow> satisfies lib sel p) \<and>
          satisfies lib newest installedRange)"

section \<open>An example registry and two operators\<close>

definition exampleRegistry :: registry where
  "exampleRegistry name =
     (if name = ''react'' then
        Inr \<lparr>versions = Some
          [(''18.2.0'', \<lparr>peerDependencies = None\<rparr>),
           (''19.0.0-rc.1'', \<lparr>peerDependencies = None\<rparr>),
           (''19.1.0'', \<lparr>peerDependencies = None\<rparr>)]\<rparr>
      else if name = ''react-dom'' then
        Inr \<lparr>versions = Some
          [(''18.2.0'', \<lparr>peerDependencies = Some [(''react'', ''^18.2.0'')]\<rparr>),
           (''19.1.0'', \<lparr>peerDependencies = Some [(''react'', ''^19.0.0'')]\<rparr>)]\<rparr>
      else if name = ''foo'' then
        Inr \<lparr>versions = Some
          [(''1.0.0'', \<lparr>peerDependencies = None\<rparr>),
           (''2.0.0'', \<lparr>peerDependencies = Some [(''react'', ''^19.0.0'')]\<rparr>)]\<rparr>
      else if name = ''unpublished'' then Inr \<lparr>versions = None\<rparr>
      else Inl NetworkError)"


text \<open>
  A registry with a package whose name is a property of \<open>Object.prototype\<close>.
\<close>

definition inheritedNameRegistry :: registry where
  "inheritedNameRegistry name =
     (if name = ''react'' then
        Inr \<lparr>versions = Some
          [(''18.2.0'', \<lparr>peerDependencies = None\<rparr>),
           (''19.1.0'', \<lparr>peerDependencies = None\<rparr>)]\<rparr>
      else if name = ''constructor'' then
        Inr \<lparr>versions = Some
          [(''1.0.0'', \<lparr>peerDependencies = Some [(''react'', ''^18.0.0'')]\<rparr>),
           (''2.0.0'', \<lparr>peerDependencies = Some [(''react'', ''^19.0.0'')]\<rparr>)]\<rparr>
      else Inl NetworkError)"

definition closedPrompt :: inquirer where
  "closedPrompt name choices = Inl PromptClosed"

definition firstChoice :: inquirer where
  "firstChoice name choices = (case choices of [] \<Rightarrow> Inl PromptClosed | c # cs \<Rightarrow> Inr c)"

text \<open>The flags of an unattended run, \<open>react --latest --autoupdate\<close>.\<close>

definition unattended :: options where
  "unattended = parseArgs [''react'', ''--latest'', ''--autoupdate'']"

section \<open>Basic facts about the model\<close>

subsection \<open>An iteration is its decision applied\<close>

lemma checkDep_decide:
  "checkDep lib registry inquirer opts main sel entry s =
     \<lparr>packageJson = applyDecision entry (decide lib registry inquirer opts main sel entry) (packageJson s),
      trace = trace s @ fst (decide lib registry inquirer opts main sel entry)\<rparr>"
  by (cases s; cases entry)
     (simp add: checkDep_def decide_def applyDecision_def emit_def
           split: sum.splits option.splits list.splits)

lemma fold_checkDep_packageJson:
  "packageJson (fold (checkDep lib registry inquirer opts main sel) al s) =
     fold (\<lambda>e. applyDecision e (decide lib registry inquirer opts main sel e)) al (packageJson s)"
  by (induction al arbitrary: s) (simp_all add: checkDep_decide)

lemma fold_checkDep_trace:
  "trace (fold (checkDep lib registry inquirer opts main sel) al s) =
     trace s @ concat (map (\<lambda>e. fst (decide lib registry inquirer opts main sel e)) al)"
  by (induction al arbitrary: s) (simp_all add: checkDep_decide)

subsection \<open>Objects\<close>

lemma own_simps: "own None k = None" "own (Some al) k = map_of al k"
  by (simp_all add: own_def)

lemma get_simps: "get None k = Undefined" "get (Some al) k = readProp al k"
  by (simp_all add: get_def)

lemma keysOf_simps: "keysOf None = {}" "keysOf (Some al) = fst ` set al"
  by (simp_all add: keysOf_def)

lemma assign_simps:
  "assign k v None = None" "assign k v (Some al) = Some (assignProp k v al)"
  by (simp_all add: assign_def)

lemma own_None_iff: "own ob k = None \<longleftrightarrow> k \<notin> keysOf ob"
  by (cases ob) (simp_all add: own_def keysOf_def map_of_eq_None_iff)

lemma map_of_assignProp:
  "map_of (assignProp k v al) k' =
     (if k' = k \<and> \<not> (k = ''__proto__'' \<and> map_of al k = None) then Some v else map_of al k')"
  by (auto simp: assignProp_def update_conv')

lemma keys_assignProp:
  "fst ` set al \<subseteq> fst ` set (assignProp k v al)"
  "fst ` set (assignProp k v al) \<subseteq> insert k (fst ` set al)"
  by (auto simp: assignProp_def dom_update)

lemma distinct_assignProp:
  "distinct (map fst al) \<Longrightarrow> distinct (map fst (assignProp k v al))"
  by (simp add: assignProp_def distinct_update)

lemma get_by_own:
  "get ob k =
     (case own ob k of
        Some s \<Rightarrow> Str s
      | None \<Rightarrow> if ob \<noteq> None \<and> k \<in> set objectPrototype then Inherited else Undefined)"
  by (cases ob) (simp_all add: get_def own_def readProp_def)

lemma agreeAt_get:
  "agreeAt k pj pj' \<Longrightarrow>
     get (dependencies pj) k = get (dependencies pj') k \<and>
     get (devDependencies pj) k = get (devDependencies pj') k"
  by (cases "dependencies pj"; cases "dependencies pj'";
      cases "devDependencies pj"; cases "devDependencies pj'")
     (auto simp: agreeAt_def get_def own_def readProp_def)

lemma agreeAt_refl: "agreeAt k pj pj"
  by (simp add: agreeAt_def)

lemma agreeAt_trans: "agreeAt k a b \<Longrightarrow> agreeAt k b c \<Longrightarrow> agreeAt k a c"
  by (simp add: agreeAt_def)

lemma own_assign:
  "own (assign k v ob) k' =
     (if k' = k \<and> ob \<noteq> None \<and> \<not> (k = ''__proto__'' \<and> own ob k = None) then Some v
      else own ob k')"
  by (cases ob) (simp_all add: own_simps assign_simps map_of_assignProp)

lemma assign_None: "(assign k v ob = None) = (ob = None)"
  by (simp add: assign_def)

lemma keysOf_assign:
  "keysOf ob \<subseteq> keysOf (assign k v ob)"
  "keysOf (assign k v ob) \<subseteq> insert k (keysOf ob)"
  using keys_assignProp [where k = k and v = v]
  by (cases ob; simp add: keysOf_simps assign_simps)+

subsection \<open>Assigning a dependency\<close>

lemma writeDep_other: "k \<noteq> d \<Longrightarrow> agreeAt k (writeDep d v pj) pj"
  by (simp add: agreeAt_def writeDep_def own_assign assign_None)

lemma writeDep_agree:
  assumes a: "agreeAt d pj pj'"
  shows "agreeAt d (writeDep d v pj) (writeDep d v pj')"
proof -
  from agreeAt_get [OF a]
  have g: "get (dependencies pj) d = get (dependencies pj') d"
    "get (devDependencies pj) d = get (devDependencies pj') d"
    by simp_all
  show ?thesis
  proof (cases "truthy (get (dependencies pj') d)")
    case True
    with g a show ?thesis
      by (auto simp: writeDep_def agreeAt_def own_assign assign_None)
  next
    case False
    show ?thesis
    proof (cases "truthy (get (devDependencies pj') d)")
      case True
      with False g a show ?thesis
        by (auto simp: writeDep_def agreeAt_def own_assign assign_None)
    next
      case no: False
      with False g a show ?thesis
        by (simp add: writeDep_def)
    qed
  qed
qed

lemma writeDep_keys:
  "keysOf (dependencies pj) \<subseteq> keysOf (dependencies (writeDep d v pj))"
  "keysOf (devDependencies pj) \<subseteq> keysOf (devDependencies (writeDep d v pj))"
  "keysOf (dependencies (writeDep d v pj)) \<subseteq> insert d (keysOf (dependencies pj))"
  "keysOf (devDependencies (writeDep d v pj)) \<subseteq> insert d (keysOf (devDependencies pj))"
  using keysOf_assign [where k = d and v = v]
  by (auto simp: writeDep_def)

text \<open>For a name that \<open>Object.prototype\<close> does not have, truthy means a non-empty own entry.\<close>

lemma truthy_get_own:
  "k \<notin> set objectPrototype \<Longrightarrow>
     truthy (get ob k) = (case own ob k of None \<Rightarrow> False | Some s \<Rightarrow> s \<noteq> [])"
  by (simp add: get_by_own truthy_def split: option.splits)

lemma proto_in_objectPrototype: "''__proto__'' \<in> set objectPrototype"
  by (simp add: objectPrototype_def)

lemma own_Some_present: "own ob k = Some s \<Longrightarrow> ob \<noteq> None"
  by (cases ob) (simp_all add: own_def)

lemma writeDep_at:
  assumes plain: "d \<notin> set objectPrototype"
  shows "own (dependencies (writeDep d v pj)) d =
           (case own (dependencies pj) d of
              None \<Rightarrow> None
            | Some s \<Rightarrow> if s \<noteq> [] then Some v else Some s)"
    and "own (devDependencies (writeDep d v pj)) d =
           (case own (devDependencies pj) d of
              None \<Rightarrow> None
            | Some s \<Rightarrow>
                if s \<noteq> [] \<and> (case own (dependencies pj) d of None \<Rightarrow> True | Some t \<Rightarrow> t = [])
                then Some v else Some s)"
proof -
  from plain have np: "d \<noteq> ''__proto__''"
    using proto_in_objectPrototype by auto
  note t = truthy_get_own [OF plain]
  show "own (dependencies (writeDep d v pj)) d =
           (case own (dependencies pj) d of
              None \<Rightarrow> None
            | Some s \<Rightarrow> if s \<noteq> [] then Some v else Some s)"
  proof (cases "own (dependencies pj) d")
    case None
    then show ?thesis by (simp add: writeDep_def t)
  next
    case (Some s)
    with np own_Some_present [OF Some] show ?thesis
      by (simp add: writeDep_def t own_assign)
  qed
  show "own (devDependencies (writeDep d v pj)) d =
           (case own (devDependencies pj) d of
              None \<Rightarrow> None
            | Some s \<Rightarrow>
                if s \<noteq> [] \<and> (case own (dependencies pj) d of None \<Rightarrow> True | Some t \<Rightarrow> t = [])
                then Some v else Some s)"
  proof (cases "own (devDependencies pj) d")
    case None
    then show ?thesis by (simp add: writeDep_def t own_assign)
  next
    case (Some s)
    show ?thesis
    proof (cases "own (dependencies pj) d")
      case None
      with Some np own_Some_present [OF Some] show ?thesis
        by (simp add: writeDep_def t own_assign)
    next
      case inner: (Some u)
      with Some np own_Some_present [OF Some] show ?thesis
        by (simp add: writeDep_def t own_assign)
    qed
  qed
qed

subsection \<open>The loop over the merged dependencies\<close>

lemma applyDecision_other: "k \<noteq> fst e \<Longrightarrow> agreeAt k (applyDecision e d pj) pj"
  by (simp add: applyDecision_def writeDep_other agreeAt_refl split: option.splits)

lemma applyDecision_agree:
  "agreeAt (fst e) pj pj' \<Longrightarrow> agreeAt (fst e) (applyDecision e d pj) (applyDecision e d pj')"
  by (simp add: applyDecision_def writeDep_agree split: option.splits)

lemma applyDecision_keys:
  "keysOf (dependencies pj) \<subseteq> keysOf (dependencies (applyDecision e d pj))"
  "keysOf (devDependencies pj) \<subseteq> keysOf (devDependencies (applyDecision e d pj))"
  "keysOf (dependencies (applyDecision e d pj)) \<subseteq> insert (fst e) (keysOf (dependencies pj))"
  "keysOf (devDependencies (applyDecision e d pj)) \<subseteq> insert (fst e) (keysOf (devDependencies pj))"
  using writeDep_keys [where pj = pj and d = "fst e"]
  by (auto simp: applyDecision_def split: option.splits)

lemma loop_other:
  "k \<notin> fst ` set al \<Longrightarrow> agreeAt k (fold (\<lambda>e. applyDecision e (D e)) al pj) pj"
proof (induction al arbitrary: pj)
  case Nil
  show ?case by (simp add: agreeAt_refl)
next
  case (Cons a al)
  then have "agreeAt k (fold (\<lambda>e. applyDecision e (D e)) al (applyDecision a (D a) pj))
               (applyDecision a (D a) pj)"
    and "agreeAt k (applyDecision a (D a) pj) pj"
    by (simp_all add: applyDecision_other)
  then show ?case by (auto intro: agreeAt_trans)
qed

lemma loop_at:
  "distinct (map fst al) \<Longrightarrow> e \<in> set al \<Longrightarrow>
     agreeAt (fst e) (fold (\<lambda>e. applyDecision e (D e)) al pj) (applyDecision e (D e) pj)"
proof (induction al arbitrary: pj)
  case Nil
  then show ?case by simp
next
  case (Cons a al)
  show ?case
  proof (cases "a = e")
    case True
    with Cons.prems have "fst e \<notin> fst ` set al" by auto
    then show ?thesis using True by (simp add: loop_other)
  next
    case False
    with Cons.prems have in_al: "e \<in> set al" and d: "distinct (map fst al)" and ne: "fst e \<noteq> fst a"
      by (auto intro: rev_image_eqI)
    from ne have "agreeAt (fst e) (applyDecision a (D a) pj) pj"
      by (rule applyDecision_other)
    then have "agreeAt (fst e) (applyDecision e (D e) (applyDecision a (D a) pj))
                 (applyDecision e (D e) pj)"
      by (rule applyDecision_agree)
    with Cons.IH [OF d in_al, of "applyDecision a (D a) pj"] show ?thesis
      by (auto intro: agreeAt_trans)
  qed
qed

subsection \<open>The compatibility check\<close>

lemma alreadyCompatible_first:
  "alreadyCompatible lib main sel r vs xs =
     (case filter (\<lambda>version. peerOk lib main sel (peerOf vs version)) xs of
        [] \<Rightarrow> False
      | v # rest \<Rightarrow> satisfies lib v r)"
  by (induction xs) simp_all


text \<open>
  For a target whose name \<open>Object.prototype\<close> does not have, the peer check passes when
  the constraint is absent, empty or satisfied.
\<close>

lemma peerOk_plain:
  "main \<notin> set objectPrototype \<Longrightarrow>
     peerOk lib main sel peer =
       (case map_of peer main of None \<Rightarrow> True | Some p \<Rightarrow> p = [] \<or> satisfies lib sel p)"
  by (auto simp: peerOk_def readProp_def truthy_def split: option.splits)


text \<open>In a list sorted by a relation, the head stands in that relation to all others.\<close>

lemma sorted_wrt_filter_head:
  "sorted_wrt R xs \<Longrightarrow> filter P xs = v # rest \<Longrightarrow> \<forall>w \<in> set rest. R v w"
proof -
  assume s: "sorted_wrt R xs" and f: "filter P xs = v # rest"
  from s have "sorted_wrt R (filter P xs)" by (rule sorted_wrt_filter)
  then have "sorted_wrt R (v # rest)" using f by simp
  then show ?thesis by simp
qed

lemma stableVersions_sorted:
  "sorted_wrt (newer lib) (stableVersions lib vs) =
     sorted_wrt (older lib) (filter (stable lib) (map fst vs))"
proof -
  have "(\<lambda>a b. newer lib b a) = older lib"
    by (simp add: older_def fun_eq_iff)
  then show ?thesis
    by (simp add: stableVersions_def sorted_wrt_rev)
qed

subsection \<open>Writing the target\<close>

lemma applyTarget_own_other:
  assumes "k \<noteq> main"
  shows "own (dependencies (applyTarget main v pj)) k = own (dependencies pj) k"
    and "own (devDependencies (applyTarget main v pj)) k = own (devDependencies pj) k"
proof -
  show "own (dependencies (applyTarget main v pj)) k = own (dependencies pj) k"
    using assms
    by (cases "dependencies pj")
       (simp_all add: applyTarget_def own_assign own_simps map_of_assignProp)
  show "own (devDependencies (applyTarget main v pj)) k = own (devDependencies pj) k"
    using assms by (simp add: applyTarget_def own_assign)
qed

lemma applyTarget_keys:
  "keysOf (dependencies pj) \<subseteq> keysOf (dependencies (applyTarget main v pj))"
  "keysOf (devDependencies pj) \<subseteq> keysOf (devDependencies (applyTarget main v pj))"
  "keysOf (dependencies (applyTarget main v pj)) \<subseteq> insert main (keysOf (dependencies pj))"
  "keysOf (devDependencies (applyTarget main v pj)) \<subseteq> insert main (keysOf (devDependencies pj))"
proof -
  note a = keysOf_assign [where k = main and v = v]
  note b = keys_assignProp [where k = main and v = v]
  show "keysOf (dependencies pj) \<subseteq> keysOf (dependencies (applyTarget main v pj))"
    using a(1) [of "dependencies pj"] b(1) [of "[]"] b(1)
    by (cases "dependencies pj") (auto simp: applyTarget_def keysOf_simps)
  show "keysOf (devDependencies pj) \<subseteq> keysOf (devDependencies (applyTarget main v pj))"
    using a(1) [of "devDependencies pj"]
    by (simp add: applyTarget_def)
  show "keysOf (dependencies (applyTarget main v pj)) \<subseteq> insert main (keysOf (dependencies pj))"
    using a(2) [of "dependencies pj"] b(2) [of "[]"] b(2)
    by (cases "dependencies pj") (auto simp: applyTarget_def keysOf_simps)
  show "keysOf (devDependencies (applyTarget main v pj)) \<subseteq> insert main (keysOf (devDependencies pj))"
    using a(2) [of "devDependencies pj"]
    by (auto simp: applyTarget_def)
qed

lemma applyTarget_wellFormed:
  "wellFormed pj \<Longrightarrow> wellFormed (applyTarget main v pj)"
  by (cases "dependencies pj"; cases "devDependencies pj";
      simp add: wellFormed_def applyTarget_def assign_simps distinct_assignProp)

subsection \<open>The merge of both classes\<close>

lemma distinct_fold_update:
  "distinct (map fst t) \<Longrightarrow> distinct (map fst (fold (\<lambda>(k, v). AList.update k v) al t))"
  by (induction al arbitrary: t) (auto simp: distinct_update)

lemma getAllDependencies_distinct: "distinct (map fst (getAllDependencies pj))"
  by (simp add: getAllDependencies_def spread_def distinct_fold_update split: option.splits)

lemma map_of_fold_update:
  "distinct (map fst al) \<Longrightarrow>
     map_of (fold (\<lambda>(k, v). AList.update k v) al t) k =
       (case map_of al k of None \<Rightarrow> map_of t k | Some v \<Rightarrow> Some v)"
proof (induction al arbitrary: t)
  case Nil
  then show ?case by simp
next
  case (Cons a al)
  obtain x y where a: "a = (x, y)" by (cases a)
  with Cons.prems have "map_of al x = None"
    by (simp add: map_of_eq_None_iff)
  with Cons a show ?case
    by (auto simp: update_conv' split: option.splits)
qed

lemma map_of_getAllDependencies:
  "wellFormed pj \<Longrightarrow>
     map_of (getAllDependencies pj) k =
       (case own (devDependencies pj) k of
          None \<Rightarrow> own (dependencies pj) k
        | Some v \<Rightarrow> Some v)"
  by (auto simp: getAllDependencies_def spread_def wellFormed_def own_def map_of_fold_update
           split: option.splits)

lemma getAllDependencies_applyTarget:
  "wellFormed pj \<Longrightarrow> k \<noteq> main \<Longrightarrow>
     map_of (getAllDependencies (applyTarget main v pj)) k = map_of (getAllDependencies pj) k"
  by (simp add: map_of_getAllDependencies applyTarget_wellFormed applyTarget_own_other
        cong: option.case_cong)

subsection \<open>Shape of a run\<close>

lemma run_aborted:
  "selectTarget lib registry inquirer opts main = (evs, None) \<Longrightarrow>
     run lib registry inquirer opts main pj = \<lparr>packageJson = pj, trace = evs\<rparr>"
  by (simp add: run_def)

lemma run_packageJson:
  "selectTarget lib registry inquirer opts main = (evs, Some sel) \<Longrightarrow>
     packageJson (run lib registry inquirer opts main pj) =
       fold (\<lambda>e. applyDecision e (decide lib registry inquirer opts main sel e))
         (getAllDependencies (applyTarget main (targetRange opts sel) pj))
         (applyTarget main (targetRange opts sel) pj)"
  by (simp add: run_def Let_def emit_def fold_checkDep_packageJson)

lemma run_trace:
  "selectTarget lib registry inquirer opts main = (evs, Some sel) \<Longrightarrow>
     trace (run lib registry inquirer opts main pj) =
       evs @ [Updating main (targetRange opts sel)] @
       concat (map (\<lambda>e. fst (decide lib registry inquirer opts main sel e))
                 (getAllDependencies (applyTarget main (targetRange opts sel) pj))) @
       [WriteFile (packageJson (run lib registry inquirer opts main pj)), Updated]"
  by (simp add: run_def Let_def emit_def fold_checkDep_trace)

lemma selectTarget_no_write:
  "selectTarget lib registry inquirer opts main = (evs, r) \<Longrightarrow> \<forall>e \<in> set evs. \<not> isWrite e"
  by (auto simp: selectTarget_def isWrite_def split: sum.splits option.splits list.splits if_splits)

lemma decide_no_write:
  "\<forall>e \<in> set (fst (decide lib registry inquirer opts main sel entry)). \<not> isWrite e"
  by (cases entry) (auto simp: decide_def isWrite_def split: sum.splits option.splits list.splits if_splits)

lemma selectTarget_no_prompt:
  "useLatest opts \<Longrightarrow> selectTarget lib registry inquirer opts main = (evs, r) \<Longrightarrow>
     \<forall>e \<in> set evs. \<not> isPrompt e"
  by (auto simp: selectTarget_def isPrompt_def split: sum.splits option.splits list.splits if_splits)

lemma decide_no_prompt:
  "autoUpdate opts \<Longrightarrow>
     \<forall>e \<in> set (fst (decide lib registry inquirer opts main sel entry)). \<not> isPrompt e"
  by (cases entry) (auto simp: decide_def isPrompt_def split: sum.splits option.splits list.splits if_splits)

section \<open>Facts about whole runs\<close>

subsection \<open>What a run does to one dependency\<close>

lemma selectTarget_cases:
  obtains evs where "selectTarget lib registry inquirer opts main = (evs, None)"
  | evs sel where "selectTarget lib registry inquirer opts main = (evs, Some sel)"
  by (cases "selectTarget lib registry inquirer opts main") (metis option.exhaust)

text \<open>
  The entries of a declared dependency after the run are those that checking this
  dependency alone gives on the manifest with the target written: no other iteration
  touches them.
\<close>

lemma run_entry:
  assumes wf: "wellFormed pj"
    and st: "snd (selectTarget lib registry inquirer opts main) = Some sel"
    and ne: "dep \<noteq> main"
    and inst: "map_of (getAllDependencies pj) dep = Some r"
  shows "agreeAt dep (packageJson (run lib registry inquirer opts main pj))
           (packageJson (checkDep lib registry inquirer opts main sel (dep, r)
              \<lparr>packageJson = applyTarget main (targetRange opts sel) pj, trace = []\<rparr>))"
proof -
  let ?pj = "applyTarget main (targetRange opts sel) pj"
  let ?al = "getAllDependencies ?pj"
  let ?D = "decide lib registry inquirer opts main sel"
  obtain evs where sel: "selectTarget lib registry inquirer opts main = (evs, Some sel)"
    using st by (cases "selectTarget lib registry inquirer opts main") simp
  from wf ne inst have "map_of ?al dep = Some r"
    by (simp add: getAllDependencies_applyTarget)
  then have mem: "(dep, r) \<in> set ?al"
    by (rule map_of_SomeD)
  have fin: "packageJson (run lib registry inquirer opts main pj) =
               fold (\<lambda>e. applyDecision e (?D e)) ?al ?pj"
    using sel by (rule run_packageJson)
  from loop_at [OF getAllDependencies_distinct mem, of ?D ?pj]
  show ?thesis
    by (simp add: fin checkDep_decide)
qed

lemma run_events:
  assumes wf: "wellFormed pj"
    and st: "snd (selectTarget lib registry inquirer opts main) = Some sel"
    and ne: "dep \<noteq> main"
    and inst: "map_of (getAllDependencies pj) dep = Some r"
  shows "set (fst (decide lib registry inquirer opts main sel (dep, r))) \<subseteq>
           set (trace (run lib registry inquirer opts main pj))"
proof -
  let ?pj = "applyTarget main (targetRange opts sel) pj"
  obtain evs where sel: "selectTarget lib registry inquirer opts main = (evs, Some sel)"
    using st by (cases "selectTarget lib registry inquirer opts main") simp
  from wf ne inst have "map_of (getAllDependencies ?pj) dep = Some r"
    by (simp add: getAllDependencies_applyTarget)
  then have "(dep, r) \<in> set (getAllDependencies ?pj)"
    by (rule map_of_SomeD)
  then show ?thesis
    by (subst run_trace [OF sel]) auto
qed

text \<open>When the iteration assigns nothing, the own entries are those of the loaded manifest.\<close>

lemma run_entry_untouched:
  assumes wf: "wellFormed pj"
    and st: "snd (selectTarget lib registry inquirer opts main) = Some sel"
    and ne: "dep \<noteq> main"
    and inst: "map_of (getAllDependencies pj) dep = Some r"
    and none: "snd (decide lib registry inquirer opts main sel (dep, r)) = None"
  shows "own (dependencies (packageJson (run lib registry inquirer opts main pj))) dep =
           own (dependencies pj) dep"
    and "own (devDependencies (packageJson (run lib registry inquirer opts main pj))) dep =
           own (devDependencies pj) dep"
  using run_entry [OF wf st ne inst] none ne
  by (simp_all add: checkDep_decide applyDecision_def agreeAt_def applyTarget_own_other)

text \<open>
  When the iteration assigns \<open>v\<close> to a dependency whose name \<open>Object.prototype\<close> does
  not have: the \<open>dependencies\<close> entry is overwritten when it is not empty, else the
  \<open>devDependencies\<close> entry when it is not empty.
\<close>

lemma run_entry_written:
  assumes wf: "wellFormed pj"
    and st: "snd (selectTarget lib registry inquirer opts main) = Some sel"
    and ne: "dep \<noteq> main"
    and inst: "map_of (getAllDependencies pj) dep = Some r"
    and some: "snd (decide lib registry inquirer opts main sel (dep, r)) = Some v"
    and plain: "dep \<notin> set objectPrototype"
  shows "own (dependencies (packageJson (run lib registry inquirer opts main pj))) dep =
           (case own (dependencies pj) dep of
              None \<Rightarrow> None
            | Some s \<Rightarrow> if s \<noteq> [] then Some v else Some s)"
    and "own (devDependencies (packageJson (run lib registry inquirer opts main pj))) dep =
           (case own (devDependencies pj) dep of
              None \<Rightarrow> None
            | Some s \<Rightarrow>
                if s \<noteq> [] \<and> (case own (dependencies pj) dep of None \<Rightarrow> True | Some t \<Rightarrow> t = [])
                then Some v else Some s)"
proof -
  let ?pj = "applyTarget main (targetRange opts sel) pj"
  from run_entry [OF wf st ne inst] some
  have a: "agreeAt dep (packageJson (run lib registry inquirer opts main pj)) (writeDep dep v ?pj)"
    by (simp add: checkDep_decide applyDecision_def)
  from ne have same: "own (dependencies ?pj) dep = own (dependencies pj) dep"
    "own (devDependencies ?pj) dep = own (devDependencies pj) dep"
    by (simp_all add: applyTarget_own_other)
  from a have "own (dependencies (packageJson (run lib registry inquirer opts main pj))) dep =
      own (dependencies (writeDep dep v ?pj)) dep"
    by (simp add: agreeAt_def)
  also have "\<dots> = (case own (dependencies pj) dep of
              None \<Rightarrow> None
            | Some s \<Rightarrow> if s \<noteq> [] then Some v else Some s)"
    by (simp only: writeDep_at(1) [OF plain] same)
  finally show "own (dependencies (packageJson (run lib registry inquirer opts main pj))) dep =
           (case own (dependencies pj) dep of
              None \<Rightarrow> None
            | Some s \<Rightarrow> if s \<noteq> [] then Some v else Some s)" .
  from a have "own (devDependencies (packageJson (run lib registry inquirer opts main pj))) dep =
      own (devDependencies (writeDep dep v ?pj)) dep"
    by (simp add: agreeAt_def)
  also have "\<dots> = (case own (devDependencies pj) dep of
              None \<Rightarrow> None
            | Some s \<Rightarrow>
                if s \<noteq> [] \<and> (case own (dependencies pj) dep of None \<Rightarrow> True | Some t \<Rightarrow> t = [])
                then Some v else Some s)"
    by (simp only: writeDep_at(2) [OF plain] same)
  finally show "own (devDependencies (packageJson (run lib registry inquirer opts main pj))) dep =
           (case own (devDependencies pj) dep of
              None \<Rightarrow> None
            | Some s \<Rightarrow>
                if s \<noteq> [] \<and> (case own (dependencies pj) dep of None \<Rightarrow> True | Some t \<Rightarrow> t = [])
                then Some v else Some s)" .
qed

subsection \<open>The file on disk\<close>

lemma persisted_append: "persisted disk (a @ b) = persisted (persisted disk a) b"
  by (simp add: persisted_def)

lemma persisted_no_write: "\<forall>e \<in> set evs. \<not> isWrite e \<Longrightarrow> persisted disk evs = disk"
  by (induction evs arbitrary: disk) (auto simp: persisted_def isWrite_def split: event.splits)

lemma run_no_write_before:
  "selectTarget lib registry inquirer opts main = (evs, Some sel) \<Longrightarrow>
     \<forall>e \<in> set (evs @ [Updating main (targetRange opts sel)] @
                concat (map (\<lambda>e. fst (decide lib registry inquirer opts main sel e)) al)).
       \<not> isWrite e"
  using selectTarget_no_write [of lib registry inquirer opts main evs "Some sel"]
        decide_no_write [of lib registry inquirer opts main sel]
  by (auto simp: isWrite_def)

lemma persisted_run:
  "persisted (Manifest pj) (trace (run lib registry inquirer opts main pj)) =
     Manifest (packageJson (run lib registry inquirer opts main pj))"
proof (cases rule: selectTarget_cases [of lib registry inquirer opts main])
  case (1 evs)
  then show ?thesis
    using selectTarget_no_write [OF 1]
    by (simp add: run_aborted persisted_no_write)
next
  case (2 evs sel)
  let ?pre = "evs @ [Updating main (targetRange opts sel)] @
     concat (map (\<lambda>e. fst (decide lib registry inquirer opts main sel e))
               (getAllDependencies (applyTarget main (targetRange opts sel) pj)))"
  have tr: "trace (run lib registry inquirer opts main pj) =
              ?pre @ [WriteFile (packageJson (run lib registry inquirer opts main pj)), Updated]"
    using run_trace [OF 2, of pj] by simp
  have "persisted (Manifest pj) ?pre = Manifest pj"
    using run_no_write_before [OF 2] by (rule persisted_no_write)
  then show ?thesis
    by (subst tr, subst persisted_append) (simp add: persisted_def)
qed


lemma decide_HttpGet:
  "dep \<noteq> main \<Longrightarrow> HttpGet dep \<in> set (fst (decide lib registry inquirer opts main sel (dep, r)))"
  by (auto simp: decide_def split: sum.splits option.splits list.splits)

lemma run_completes:
  assumes st: "snd (selectTarget lib registry inquirer opts main) = Some sel"
  shows "WriteFile (packageJson (run lib registry inquirer opts main pj))
           \<in> set (trace (run lib registry inquirer opts main pj))"
    and "last (trace (run lib registry inquirer opts main pj)) = Updated"
proof -
  obtain evs where sel: "selectTarget lib registry inquirer opts main = (evs, Some sel)"
    using st by (cases "selectTarget lib registry inquirer opts main") simp
  show "WriteFile (packageJson (run lib registry inquirer opts main pj))
           \<in> set (trace (run lib registry inquirer opts main pj))"
    by (subst run_trace [OF sel]) simp
  show "last (trace (run lib registry inquirer opts main pj)) = Updated"
    by (subst run_trace [OF sel]) simp
qed


subsection \<open>The reference implementation of semver\<close>

lemma splitOn_nonempty: "splitOn c xs \<noteq> []"
  by (induction xs) (auto split: list.splits)

lemma hd_splitOn: "hd (splitOn c xs) = takeWhile (\<lambda>x. x \<noteq> c) xs"
  by (induction xs) (auto simp: splitOn_nonempty split: list.splits)

lemma hd_takeWhile: "takeWhile P xs \<noteq> [] \<Longrightarrow> xs \<noteq> [] \<and> hd (takeWhile P xs) = hd xs"
  by (cases xs) (auto split: if_splits)

lemma parse_starts_with_digit:
  assumes "parse v = Some x"
  shows "v \<noteq> [] \<and> digit (hd v)"
proof -
  let ?core = "takeWhile (\<lambda>c. c \<noteq> CHR ''-'') (takeWhile (\<lambda>c. c \<noteq> CHR ''+'') v)"
  from assms obtain a rest where m: "map numericIdentifier (splitOn (CHR ''.'') ?core) = Some a # rest"
    by (auto simp: parse_def Let_def split: list.splits option.splits if_splits)
  then obtain p ps where sp: "splitOn (CHR ''.'') ?core = p # ps" and n: "numericIdentifier p = Some a"
    by (cases "splitOn (CHR ''.'') ?core") auto
  from n have p: "p \<noteq> []" "digit (hd p)"
    by (cases p; auto simp: numericIdentifier_def split: if_splits)+
  from sp have "p = takeWhile (\<lambda>x. x \<noteq> CHR ''.'') ?core"
    using hd_splitOn [of "CHR ''.''" ?core] by simp
  with p show ?thesis
    by (metis hd_takeWhile)
qed

lemma npm_stable_no_prefix: "stable npm_semver v \<Longrightarrow> v \<noteq> [] \<and> hd v \<noteq> CHR ''^''"
proof -
  assume "stable npm_semver v"
  then obtain x where "parse v = Some x"
    by (auto simp: stable_def npm_semver_def npm_valid_def split: option.splits)
  from parse_starts_with_digit [OF this] show ?thesis
    by (auto simp: digit_def)
qed


subsection \<open>The target's entry after the loop\<close>

lemma loop_target_untouched:
  "agreeAt main
     (fold (\<lambda>e. applyDecision e (decide lib registry inquirer opts main sel e)) al pj) pj"
proof (induction al arbitrary: pj)
  case Nil
  show ?case by (simp add: agreeAt_refl)
next
  case (Cons e al)
  have step: "agreeAt main (applyDecision e (decide lib registry inquirer opts main sel e) pj) pj"
  proof (cases "fst e = main")
    case True
    then have "decide lib registry inquirer opts main sel e = ([], None)"
      by (cases e) (simp add: decide_def)
    then show ?thesis by (simp add: applyDecision_def agreeAt_refl)
  next
    case False
    then have "main \<noteq> fst e" by auto
    then show ?thesis by (rule applyDecision_other)
  qed
  from Cons.IH [of "applyDecision e (decide lib registry inquirer opts main sel e) pj"] step
  show ?case by (auto intro: agreeAt_trans)
qed

lemma run_target_entry:
  assumes st: "snd (selectTarget lib registry inquirer opts main) = Some sel"
  shows "agreeAt main (packageJson (run lib registry inquirer opts main pj))
           (applyTarget main (targetRange opts sel) pj)"
proof -
  obtain evs where sel: "selectTarget lib registry inquirer opts main = (evs, Some sel)"
    using st by (cases "selectTarget lib registry inquirer opts main") simp
  show ?thesis
    by (simp add: run_packageJson [OF sel] loop_target_untouched)
qed

section \<open>The stable version list\<close>




section \<open>The already-compatible check\<close>

text \<open>
  Claim C2, as stated: the dependency is marked already-compatible if and only if the
  newest stable version passes the peer check and satisfies the installed range. Both
  directions fail. The loop breaks at the first version that passes the peer check, so
  when the newest version fails it an older one decides: 2.0.0 needs react 19, the target
  is react 18.2.0, and 1.0.0 decides. And the loop scans in reverse document order, so
  when 1.0.1 was published after 2.0.0 it is 1.0.1 that decides, although 2.0.0 is the
  newest, passes the peer check and satisfies the range.
\<close>

theorem newest_version_decides_counterexample:
  "alreadyCompatible npm_semver ''react'' ''18.2.0'' ''^1.0.0''
     [(''1.0.0'', \<lparr>peerDependencies = None\<rparr>),
      (''2.0.0'', \<lparr>peerDependencies = Some [(''react'', ''^19.0.0'')]\<rparr>)]
     (stableVersions npm_semver
        [(''1.0.0'', \<lparr>peerDependencies = None\<rparr>),
         (''2.0.0'', \<lparr>peerDependencies = Some [(''react'', ''^19.0.0'')]\<rparr>)])
   \<and> \<not> newestVersionDecides npm_semver ''react'' ''18.2.0'' ''^1.0.0''
         [(''1.0.0'', \<lparr>peerDependencies = None\<rparr>),
          (''2.0.0'', \<lparr>peerDependencies = Some [(''react'', ''^19.0.0'')]\<rparr>)]
   \<and> newestVersionDecides npm_semver ''react'' ''19.1.0'' ''^2.0.0''
         [(''1.0.0'', \<lparr>peerDependencies = None\<rparr>),
          (''2.0.0'', \<lparr>peerDependencies = None\<rparr>),
          (''1.0.1'', \<lparr>peerDependencies = None\<rparr>)]
   \<and> \<not> alreadyCompatible npm_semver ''react'' ''19.1.0'' ''^2.0.0''
         [(''1.0.0'', \<lparr>peerDependencies = None\<rparr>),
          (''2.0.0'', \<lparr>peerDependencies = None\<rparr>),
          (''1.0.1'', \<lparr>peerDependencies = None\<rparr>)]
         (stableVersions npm_semver
            [(''1.0.0'', \<lparr>peerDependencies = None\<rparr>),
             (''2.0.0'', \<lparr>peerDependencies = None\<rparr>),
             (''1.0.1'', \<lparr>peerDependencies = None\<rparr>)])"
  by code_simp

text \<open>
  Claim C2, amended: the fast path is decided by one version, the first one that passes
  the peer check when the stable versions are scanned in reverse registry document order.
  The dependency is marked already-compatible if and only if there is such a version and
  it satisfies the installed range; the versions scanned before it are skipped. For a
  target whose name is not a property of \<open>Object.prototype\<close>, a version passes the peer
  check when its peer constraint on the target is absent, empty or satisfied by the
  chosen target version. When the registry document lists the stable versions in strictly
  ascending precedence, the deciding version is newer than every other version that
  passes the peer check.
\<close>

theorem alreadyCompatible_first_compatible:
  "(alreadyCompatible lib main sel installedRange vs (stableVersions lib vs) \<longleftrightarrow>
      (case compatibleVersions lib main sel vs of
         [] \<Rightarrow> False
       | v # rest \<Rightarrow> satisfies lib v installedRange))
   \<and> compatibleVersions lib main sel vs =
        filter (\<lambda>v. peerOk lib main sel (peerOf vs v)) (rev (filter (stable lib) (map fst vs)))
   \<and> (main \<notin> set objectPrototype \<longrightarrow>
        (\<forall>v. peerOk lib main sel (peerOf vs v) \<longleftrightarrow>
           (case map_of (peerOf vs v) main of
              None \<Rightarrow> True
            | Some p \<Rightarrow> p = [] \<or> satisfies lib sel p)))
   \<and> (sorted_wrt (older lib) (filter (stable lib) (map fst vs)) \<longrightarrow>
        (case compatibleVersions lib main sel vs of
           [] \<Rightarrow> True
         | v # rest \<Rightarrow> \<forall>w \<in> set rest. newer lib v w))"
proof -
  have one: "alreadyCompatible lib main sel installedRange vs (stableVersions lib vs) \<longleftrightarrow>
      (case compatibleVersions lib main sel vs of
         [] \<Rightarrow> False
       | v # rest \<Rightarrow> satisfies lib v installedRange)"
    by (simp add: alreadyCompatible_first compatibleVersions_def)
  have two: "compatibleVersions lib main sel vs =
        filter (\<lambda>v. peerOk lib main sel (peerOf vs v)) (rev (filter (stable lib) (map fst vs)))"
    by (simp add: compatibleVersions_def stableVersions_def)
  have three: "main \<notin> set objectPrototype \<longrightarrow>
        (\<forall>v. peerOk lib main sel (peerOf vs v) \<longleftrightarrow>
           (case map_of (peerOf vs v) main of
              None \<Rightarrow> True
            | Some p \<Rightarrow> p = [] \<or> satisfies lib sel p))"
    by (simp add: peerOk_plain)
  have four: "case compatibleVersions lib main sel vs of
           [] \<Rightarrow> True
         | v # rest \<Rightarrow> \<forall>w \<in> set rest. newer lib v w"
    if asc: "sorted_wrt (older lib) (filter (stable lib) (map fst vs))"
  proof (cases "compatibleVersions lib main sel vs")
    case Nil
    then show ?thesis by simp
  next
    case (Cons v rest)
    from asc have "sorted_wrt (newer lib) (stableVersions lib vs)"
      by (simp add: stableVersions_sorted)
    from sorted_wrt_filter_head [OF this Cons [unfolded compatibleVersions_def]] Cons
    show ?thesis by simp
  qed
  from one two three four show ?thesis by blast
qed

theorem alreadyCompatible_first_compatible_witness:
  "''react'' \<notin> set objectPrototype
   \<and> sorted_wrt (older npm_semver)
        (filter (stable npm_semver)
           (map fst [(''1.0.0'', \<lparr>peerDependencies = None\<rparr>),
                     (''2.0.0'', \<lparr>peerDependencies = Some [(''react'', ''^19.0.0'')]\<rparr>)]))
   \<and> compatibleVersions npm_semver ''react'' ''19.1.0''
        [(''1.0.0'', \<lparr>peerDependencies = None\<rparr>),
         (''2.0.0'', \<lparr>peerDependencies = Some [(''react'', ''^19.0.0'')]\<rparr>)]
       = [''2.0.0'', ''1.0.0'']
   \<and> newer npm_semver ''2.0.0'' ''1.0.0''
   \<and> npm_satisfies ''2.0.0'' ''^2.0.0''
   \<and> alreadyCompatible npm_semver ''react'' ''19.1.0'' ''^2.0.0''
        [(''1.0.0'', \<lparr>peerDependencies = None\<rparr>),
         (''2.0.0'', \<lparr>peerDependencies = Some [(''react'', ''^19.0.0'')]\<rparr>)]
        (stableVersions npm_semver
           [(''1.0.0'', \<lparr>peerDependencies = None\<rparr>),
            (''2.0.0'', \<lparr>peerDependencies = Some [(''react'', ''^19.0.0'')]\<rparr>)])
   \<and> peerOk npm_semver ''react'' ''19.1.0''
        (peerOf [(''1.0.0'', \<lparr>peerDependencies = None\<rparr>),
                 (''2.0.0'', \<lparr>peerDependencies = Some [(''react'', ''^19.0.0'')]\<rparr>)] ''1.0.0'')"
proof -
  let ?vs = "[(''1.0.0'', \<lparr>peerDependencies = None\<rparr>),
              (''2.0.0'', \<lparr>peerDependencies = Some [(''react'', ''^19.0.0'')]\<rparr>)]"
  note at_example =
    alreadyCompatible_first_compatible [of npm_semver "''react''" "''19.1.0''" "''^2.0.0''" ?vs]
  have plain: "''react'' \<notin> set objectPrototype" by code_simp
  have asc: "sorted_wrt (older npm_semver) (filter (stable npm_semver) (map fst ?vs))"
    by code_simp
  have c: "compatibleVersions npm_semver ''react'' ''19.1.0'' ?vs = [''2.0.0'', ''1.0.0'']"
    by code_simp
  have s: "npm_satisfies ''2.0.0'' ''^2.0.0''" by code_simp
  have absent: "map_of (peerOf ?vs ''1.0.0'') ''react'' = None" by code_simp
  from at_example have "alreadyCompatible npm_semver ''react'' ''19.1.0'' ''^2.0.0'' ?vs
        (stableVersions npm_semver ?vs) \<longleftrightarrow>
      (case compatibleVersions npm_semver ''react'' ''19.1.0'' ?vs of
         [] \<Rightarrow> False
       | v # rest \<Rightarrow> satisfies npm_semver v ''^2.0.0'')"
    by (rule conjunct1)
  with c s have a: "alreadyCompatible npm_semver ''react'' ''19.1.0'' ''^2.0.0'' ?vs
        (stableVersions npm_semver ?vs)"
    by (simp add: npm_semver_def)
  from at_example have "''react'' \<notin> set objectPrototype \<longrightarrow>
        (\<forall>v. peerOk npm_semver ''react'' ''19.1.0'' (peerOf ?vs v) \<longleftrightarrow>
           (case map_of (peerOf ?vs v) ''react'' of
              None \<Rightarrow> True
            | Some p \<Rightarrow> p = [] \<or> satisfies npm_semver ''19.1.0'' p))"
    by (rule conjunct2 [THEN conjunct2, THEN conjunct1])
  from this [THEN mp, OF plain, THEN spec, of "''1.0.0''"] absent
  have p: "peerOk npm_semver ''react'' ''19.1.0'' (peerOf ?vs ''1.0.0'')"
    by simp
  from at_example have "sorted_wrt (older npm_semver) (filter (stable npm_semver) (map fst ?vs)) \<longrightarrow>
        (case compatibleVersions npm_semver ''react'' ''19.1.0'' ?vs of
           [] \<Rightarrow> True
         | v # rest \<Rightarrow> \<forall>w \<in> set rest. newer npm_semver v w)"
    by (rule conjunct2 [THEN conjunct2, THEN conjunct2])
  from this [THEN mp, OF asc] c have n: "newer npm_semver ''2.0.0'' ''1.0.0''"
    by simp
  from plain asc c n s a p show ?thesis by blast
qed

section \<open>Dependencies that are already compatible\<close>




section \<open>Automatic update of incompatible dependencies\<close>




section \<open>Errors while checking one dependency\<close>

text \<open>
  Claim C6: when checking one dependency fails, by a rejected registry fetch, a
  registry document without \<open>versions\<close> or a closed prompt, the dependency's entries
  stay as they were, the failure is logged, every declared dependency other than the
  target is still fetched, and the run ends by writing the manifest once. The failure
  touches no other entry: after the run the entries of every other declared dependency
  are those that checking this dependency alone gives on the manifest with the target
  written, and the target's entries are those written before the loop.
\<close>

theorem dependency_error_is_isolated:
  assumes wf: "wellFormed pj"
    and st: "snd (selectTarget lib registry inquirer opts main) = Some sel"
    and ne: "dep \<noteq> main"
    and inst: "map_of (getAllDependencies pj) dep = Some installedRange"
    and fail: "registry dep = Inl err
       \<or> (\<exists>depMeta. registry dep = Inr depMeta \<and> versions depMeta = None \<and> err = TypeError)
       \<or> (\<exists>depMeta vs. registry dep = Inr depMeta \<and> versions depMeta = Some vs
            \<and> \<not> alreadyCompatible lib main sel installedRange vs (stableVersions lib vs)
            \<and> compatibleVersions lib main sel vs \<noteq> []
            \<and> \<not> autoUpdate opts
            \<and> inquirer dep (take 20 (compatibleVersions lib main sel vs)) = Inl err)"
  shows "own (dependencies (packageJson (run lib registry inquirer opts main pj))) dep =
           own (dependencies pj) dep
       \<and> own (devDependencies (packageJson (run lib registry inquirer opts main pj))) dep =
           own (devDependencies pj) dep
       \<and> FailedToCheck dep err \<in> set (trace (run lib registry inquirer opts main pj))
       \<and> (\<forall>d \<in> fst ` set (getAllDependencies pj).
             d \<noteq> main \<longrightarrow> HttpGet d \<in> set (trace (run lib registry inquirer opts main pj)))
       \<and> (\<forall>d r. d \<noteq> main \<longrightarrow> map_of (getAllDependencies pj) d = Some r \<longrightarrow>
             own (dependencies (packageJson (run lib registry inquirer opts main pj))) d =
               own (dependencies (packageJson
                 (checkDep lib registry inquirer opts main sel (d, r)
                    \<lparr>packageJson = applyTarget main (targetRange opts sel) pj, trace = []\<rparr>))) d
           \<and> own (devDependencies (packageJson (run lib registry inquirer opts main pj))) d =
               own (devDependencies (packageJson
                 (checkDep lib registry inquirer opts main sel (d, r)
                    \<lparr>packageJson = applyTarget main (targetRange opts sel) pj, trace = []\<rparr>))) d)
       \<and> own (dependencies (packageJson (run lib registry inquirer opts main pj))) main =
           own (dependencies (applyTarget main (targetRange opts sel) pj)) main
       \<and> own (devDependencies (packageJson (run lib registry inquirer opts main pj))) main =
           own (devDependencies (applyTarget main (targetRange opts sel) pj)) main
       \<and> WriteFile (packageJson (run lib registry inquirer opts main pj))
           \<in> set (trace (run lib registry inquirer opts main pj))
       \<and> last (trace (run lib registry inquirer opts main pj)) = Updated
       \<and> persisted (Manifest pj) (trace (run lib registry inquirer opts main pj)) =
           Manifest (packageJson (run lib registry inquirer opts main pj))"
proof -
  let ?final = "packageJson (run lib registry inquirer opts main pj)"
  from fail ne
  have d: "snd (decide lib registry inquirer opts main sel (dep, installedRange)) = None
         \<and> FailedToCheck dep err \<in> set (fst (decide lib registry inquirer opts main sel (dep, installedRange)))"
    by (auto simp: decide_def split: list.splits)
  then have none: "snd (decide lib registry inquirer opts main sel (dep, installedRange)) = None"
    by simp
  note a = run_entry_untouched(1) [OF wf st ne inst none]
  note b = run_entry_untouched(2) [OF wf st ne inst none]
  from run_events [OF wf st ne inst] d
  have c: "FailedToCheck dep err \<in> set (trace (run lib registry inquirer opts main pj))"
    by blast
  have e: "HttpGet d \<in> set (trace (run lib registry inquirer opts main pj))"
    if "d \<in> fst ` set (getAllDependencies pj)" and "d \<noteq> main" for d
  proof -
    from that(1) obtain r where "(d, r) \<in> set (getAllDependencies pj)" by auto
    with getAllDependencies_distinct have "map_of (getAllDependencies pj) d = Some r"
      by simp
    from run_events [OF wf st that(2) this] decide_HttpGet [OF that(2)]
    show ?thesis by blast
  qed
  have others: "own (dependencies ?final) d =
               own (dependencies (packageJson
                 (checkDep lib registry inquirer opts main sel (d, r)
                    \<lparr>packageJson = applyTarget main (targetRange opts sel) pj, trace = []\<rparr>))) d
           \<and> own (devDependencies ?final) d =
               own (devDependencies (packageJson
                 (checkDep lib registry inquirer opts main sel (d, r)
                    \<lparr>packageJson = applyTarget main (targetRange opts sel) pj, trace = []\<rparr>))) d"
    if "d \<noteq> main" and "map_of (getAllDependencies pj) d = Some r" for d r
    using run_entry [OF wf st that] by (simp add: agreeAt_def)
  from run_target_entry [OF st, of pj]
  have t: "own (dependencies ?final) main =
             own (dependencies (applyTarget main (targetRange opts sel) pj)) main"
    "own (devDependencies ?final) main =
             own (devDependencies (applyTarget main (targetRange opts sel) pj)) main"
    by (simp_all add: agreeAt_def)
  from a b c e others t run_completes [OF st] show ?thesis
    by (simp add: persisted_run)
qed

theorem dependency_error_is_isolated_witness:
  "wellFormed \<lparr>dependencies = Some [(''react'', ''18.2.0''), (''react-dom'', ''18.2.0''),
                                     (''left-pad'', ''^1.3.0''), (''foo'', ''^1.0.0'')],
               devDependencies = None\<rparr>
   \<and> snd (selectTarget npm_semver exampleRegistry closedPrompt unattended ''react'') = Some ''19.1.0''
   \<and> map_of (getAllDependencies
        \<lparr>dependencies = Some [(''react'', ''18.2.0''), (''react-dom'', ''18.2.0''),
                              (''left-pad'', ''^1.3.0''), (''foo'', ''^1.0.0'')],
         devDependencies = None\<rparr>) ''left-pad'' = Some ''^1.3.0''
   \<and> exampleRegistry ''left-pad'' = Inl NetworkError
   \<and> own (dependencies (packageJson (run npm_semver exampleRegistry closedPrompt unattended ''react''
        \<lparr>dependencies = Some [(''react'', ''18.2.0''), (''react-dom'', ''18.2.0''),
                              (''left-pad'', ''^1.3.0''), (''foo'', ''^1.0.0'')],
         devDependencies = None\<rparr>))) ''left-pad'' = Some ''^1.3.0''
   \<and> FailedToCheck ''left-pad'' NetworkError
        \<in> set (trace (run npm_semver exampleRegistry closedPrompt unattended ''react''
        \<lparr>dependencies = Some [(''react'', ''18.2.0''), (''react-dom'', ''18.2.0''),
                              (''left-pad'', ''^1.3.0''), (''foo'', ''^1.0.0'')],
         devDependencies = None\<rparr>))
   \<and> HttpGet ''foo''
        \<in> set (trace (run npm_semver exampleRegistry closedPrompt unattended ''react''
        \<lparr>dependencies = Some [(''react'', ''18.2.0''), (''react-dom'', ''18.2.0''),
                              (''left-pad'', ''^1.3.0''), (''foo'', ''^1.0.0'')],
         devDependencies = None\<rparr>))
   \<and> own (dependencies (packageJson (run npm_semver exampleRegistry closedPrompt unattended ''react''
        \<lparr>dependencies = Some [(''react'', ''18.2.0''), (''react-dom'', ''18.2.0''),
                              (''left-pad'', ''^1.3.0''), (''foo'', ''^1.0.0'')],
         devDependencies = None\<rparr>))) ''react-dom'' = Some ''19.1.0''
   \<and> own (dependencies (packageJson (run npm_semver exampleRegistry closedPrompt unattended ''react''
        \<lparr>dependencies = Some [(''react'', ''18.2.0''), (''react-dom'', ''18.2.0''),
                              (''left-pad'', ''^1.3.0''), (''foo'', ''^1.0.0'')],
         devDependencies = None\<rparr>))) ''foo'' = Some ''2.0.0''
   \<and> own (dependencies (packageJson (run npm_semver exampleRegistry closedPrompt unattended ''react''
        \<lparr>dependencies = Some [(''react'', ''18.2.0''), (''react-dom'', ''18.2.0''),
                              (''left-pad'', ''^1.3.0''), (''foo'', ''^1.0.0'')],
         devDependencies = None\<rparr>))) ''react'' = Some ''^19.1.0''
   \<and> persisted
        (Manifest \<lparr>dependencies = Some [(''react'', ''18.2.0''), (''react-dom'', ''18.2.0''),
                                         (''left-pad'', ''^1.3.0''), (''foo'', ''^1.0.0'')],
                   devDependencies = None\<rparr>)
        (trace (run npm_semver exampleRegistry closedPrompt unattended ''react''
        \<lparr>dependencies = Some [(''react'', ''18.2.0''), (''react-dom'', ''18.2.0''),
                              (''left-pad'', ''^1.3.0''), (''foo'', ''^1.0.0'')],
         devDependencies = None\<rparr>))
       = Manifest \<lparr>dependencies = Some [(''react'', ''^19.1.0''), (''react-dom'', ''19.1.0''),
                                         (''left-pad'', ''^1.3.0''), (''foo'', ''2.0.0'')],
                   devDependencies = None\<rparr>"
proof -
  let ?pj = "\<lparr>dependencies = Some [(''react'', ''18.2.0''), (''react-dom'', ''18.2.0''),
                                    (''left-pad'', ''^1.3.0''), (''foo'', ''^1.0.0'')],
              devDependencies = None\<rparr>"
  let ?run = "run npm_semver exampleRegistry closedPrompt unattended ''react'' ?pj"
  let ?alone = "\<lambda>d r. packageJson (checkDep npm_semver exampleRegistry closedPrompt unattended
      ''react'' ''19.1.0'' (d, r)
      \<lparr>packageJson = applyTarget ''react'' (targetRange unattended ''19.1.0'') ?pj, trace = []\<rparr>)"
  have wf: "wellFormed ?pj" by code_simp
  have st: "snd (selectTarget npm_semver exampleRegistry closedPrompt unattended ''react'') = Some ''19.1.0''"
    by code_simp
  have ne: "''left-pad'' \<noteq> ''react''" by simp
  have inst: "map_of (getAllDependencies ?pj) ''left-pad'' = Some ''^1.3.0''" by code_simp
  have reg: "exampleRegistry ''left-pad'' = Inl NetworkError"
    by (simp add: exampleRegistry_def)
  have declared: "''foo'' \<in> fst ` set (getAllDependencies ?pj)" by code_simp
  have before: "map_of (getAllDependencies ?pj) ''react-dom'' = Some ''18.2.0''" by code_simp
  have after: "map_of (getAllDependencies ?pj) ''foo'' = Some ''^1.0.0''" by code_simp
  have alone_before: "own (dependencies (?alone ''react-dom'' ''18.2.0'')) ''react-dom'' = Some ''19.1.0''"
    by code_simp
  have alone_after: "own (dependencies (?alone ''foo'' ''^1.0.0'')) ''foo'' = Some ''2.0.0''"
    by code_simp
  have written: "own (dependencies (applyTarget ''react'' (targetRange unattended ''19.1.0'') ?pj)) ''react''
      = Some ''^19.1.0''"
    by code_simp
  have disk: "persisted (Manifest ?pj) (trace ?run)
       = Manifest \<lparr>dependencies = Some [(''react'', ''^19.1.0''), (''react-dom'', ''19.1.0''),
                                         (''left-pad'', ''^1.3.0''), (''foo'', ''2.0.0'')],
                   devDependencies = None\<rparr>"
    by code_simp
  have fail: "exampleRegistry ''left-pad'' = Inl NetworkError
       \<or> (\<exists>depMeta. exampleRegistry ''left-pad'' = Inr depMeta \<and> versions depMeta = None
            \<and> NetworkError = TypeError)
       \<or> (\<exists>depMeta vs. exampleRegistry ''left-pad'' = Inr depMeta \<and> versions depMeta = Some vs
            \<and> \<not> alreadyCompatible npm_semver ''react'' ''19.1.0'' ''^1.3.0'' vs (stableVersions npm_semver vs)
            \<and> compatibleVersions npm_semver ''react'' ''19.1.0'' vs \<noteq> []
            \<and> \<not> autoUpdate unattended
            \<and> closedPrompt ''left-pad'' (take 20 (compatibleVersions npm_semver ''react'' ''19.1.0'' vs))
                = Inl NetworkError)"
    using reg by (rule disjI1)
  note at_example = dependency_error_is_isolated [OF wf st ne inst fail]
  from at_example have "own (dependencies (packageJson ?run)) ''left-pad'' = own (dependencies ?pj) ''left-pad''"
    by (rule conjunct1)
  then have a: "own (dependencies (packageJson ?run)) ''left-pad'' = Some ''^1.3.0''"
    by (simp add: own_simps)
  from at_example have b: "FailedToCheck ''left-pad'' NetworkError \<in> set (trace ?run)"
    by (rule conjunct2 [THEN conjunct2, THEN conjunct1])
  from at_example have ball: "\<forall>d \<in> fst ` set (getAllDependencies ?pj).
      d \<noteq> ''react'' \<longrightarrow> HttpGet d \<in> set (trace ?run)"
    by (rule conjunct2 [THEN conjunct2, THEN conjunct2, THEN conjunct1])
  have ne2: "''foo'' \<noteq> ''react''" by simp
  from bspec [OF ball declared] ne2 have c: "HttpGet ''foo'' \<in> set (trace ?run)"
    by (rule mp)
  from at_example have others: "\<forall>d r. d \<noteq> ''react'' \<longrightarrow> map_of (getAllDependencies ?pj) d = Some r \<longrightarrow>
      own (dependencies (packageJson ?run)) d = own (dependencies (?alone d r)) d
    \<and> own (devDependencies (packageJson ?run)) d = own (devDependencies (?alone d r)) d"
    by (rule conjunct2 [THEN conjunct2, THEN conjunct2, THEN conjunct2, THEN conjunct1])
  have ne3: "''react-dom'' \<noteq> ''react''" by simp
  from others [THEN spec, THEN spec, THEN mp, THEN mp, OF ne3 before]
  have "own (dependencies (packageJson ?run)) ''react-dom'' =
      own (dependencies (?alone ''react-dom'' ''18.2.0'')) ''react-dom''"
    by (rule conjunct1)
  with alone_before have e1: "own (dependencies (packageJson ?run)) ''react-dom'' = Some ''19.1.0''"
    by simp
  from others [THEN spec, THEN spec, THEN mp, THEN mp, OF ne2 after]
  have "own (dependencies (packageJson ?run)) ''foo'' =
      own (dependencies (?alone ''foo'' ''^1.0.0'')) ''foo''"
    by (rule conjunct1)
  with alone_after have e2: "own (dependencies (packageJson ?run)) ''foo'' = Some ''2.0.0''"
    by simp
  from at_example have "own (dependencies (packageJson ?run)) ''react'' =
      own (dependencies (applyTarget ''react'' (targetRange unattended ''19.1.0'') ?pj)) ''react''"
    by (rule conjunct2 [THEN conjunct2, THEN conjunct2, THEN conjunct2, THEN conjunct2, THEN conjunct1])
  with written have t: "own (dependencies (packageJson ?run)) ''react'' = Some ''^19.1.0''"
    by simp
  from wf st inst reg a b c e1 e2 t disk show ?thesis by blast
qed

text \<open>
  A dependency without any stable version raises no error: its entries stay as they were
  and the run goes on, with a notice only under \<open>--check-incompatibilities\<close>.
\<close>

lemma no_stable_version_untouched:
  assumes wf: "wellFormed pj"
    and st: "snd (selectTarget lib registry inquirer opts main) = Some sel"
    and ne: "dep \<noteq> main"
    and inst: "map_of (getAllDependencies pj) dep = Some installedRange"
    and reg: "registry dep = Inr depMeta"
    and vs: "versions depMeta = Some vs"
    and none: "stableVersions lib vs = []"
  shows "own (dependencies (packageJson (run lib registry inquirer opts main pj))) dep =
           own (dependencies pj) dep
       \<and> own (devDependencies (packageJson (run lib registry inquirer opts main pj))) dep =
           own (devDependencies pj) dep
       \<and> (showIncompatible opts \<longrightarrow>
            NoCompatibleVersion dep \<in> set (trace (run lib registry inquirer opts main pj)))"
proof -
  from ne reg vs none
  have d: "decide lib registry inquirer opts main sel (dep, installedRange) =
      (if showIncompatible opts then [HttpGet dep, NoCompatibleVersion dep] else [HttpGet dep], None)"
    by (simp add: decide_def compatibleVersions_def)
  then have unassigned: "snd (decide lib registry inquirer opts main sel (dep, installedRange)) = None"
    by simp
  from run_events [OF wf st ne inst] d
  have "showIncompatible opts \<longrightarrow>
      NoCompatibleVersion dep \<in> set (trace (run lib registry inquirer opts main pj))"
    by (auto split: if_splits)
  with run_entry_untouched(1) [OF wf st ne inst unassigned]
    run_entry_untouched(2) [OF wf st ne inst unassigned]
  show ?thesis
    by simp
qed

section \<open>Unattended runs\<close>

lemma selectTarget_useLatest:
  "useLatest opts \<Longrightarrow>
     selectTarget lib registry inquirer opts main = selectTarget lib registry inquirer' opts main"
  by (simp add: selectTarget_def split: sum.splits option.splits list.splits)

lemma decide_autoUpdate:
  "autoUpdate opts \<Longrightarrow>
     decide lib registry inquirer opts main sel e = decide lib registry inquirer' opts main sel e"
  by (cases e) (simp add: decide_def split: sum.splits option.splits list.splits)

lemma run_unattended:
  assumes "useLatest opts" and "autoUpdate opts"
  shows "run lib registry inquirer opts main pj = run lib registry inquirer' opts main pj"
proof -
  have "checkDep lib registry inquirer opts main sel = checkDep lib registry inquirer' opts main sel"
    for sel
    using decide_autoUpdate [OF assms(2), of lib registry inquirer main sel _ inquirer']
    by (simp add: fun_eq_iff checkDep_decide)
  then show ?thesis
    using selectTarget_useLatest [OF assms(1), of lib registry inquirer main inquirer']
    by (simp add: run_def)
qed

lemma run_no_prompt:
  assumes ul: "useLatest opts" and au: "autoUpdate opts"
  shows "\<forall>e \<in> set (trace (run lib registry inquirer opts main pj)). \<not> isPrompt e"
proof (cases rule: selectTarget_cases [of lib registry inquirer opts main])
  case (1 evs)
  with selectTarget_no_prompt [OF ul 1] show ?thesis
    by (simp add: run_aborted)
next
  case (2 evs sel)
  with selectTarget_no_prompt [OF ul 2] decide_no_prompt [OF au, of lib registry inquirer main sel]
  show ?thesis
    by (auto simp: run_trace [OF 2] isPrompt_def)
qed

text \<open>
  Claim C7: a run started with \<open>--latest\<close> and \<open>--autoupdate\<close> never prompts the
  operator, whatever the registry answers and whatever the manifest holds: no prompt
  occurs among its events, and its events are the same for every operator.
\<close>

theorem unattended_run_never_prompts:
  assumes "''--latest'' \<in> set args" and "''--autoupdate'' \<in> set args"
  shows "(\<forall>e \<in> set (script lib registry inquirer args disk). \<not> isPrompt e)
       \<and> script lib registry inquirer args disk = script lib registry inquirer' args disk"
proof -
  from assms have ul: "useLatest (parseArgs args)" and au: "autoUpdate (parseArgs args)"
    by (simp_all add: parseArgs_def)
  have "\<forall>e \<in> set (script lib registry inquirer args disk). \<not> isPrompt e"
    using run_no_prompt [OF ul au, of lib registry inquirer]
    by (auto simp: script_def isPrompt_def split: option.splits disk_file.splits)
  moreover have "script lib registry inquirer args disk = script lib registry inquirer' args disk"
    using run_unattended [OF ul au, of lib registry inquirer _ _ inquirer']
    by (simp add: script_def split: option.splits disk_file.splits)
  ultimately show ?thesis by blast
qed

theorem unattended_run_never_prompts_witness:
  "''--latest'' \<in> set [''react'', ''--latest'', ''--autoupdate'']
   \<and> ''--autoupdate'' \<in> set [''react'', ''--latest'', ''--autoupdate'']
   \<and> filter isPrompt
        (script npm_semver exampleRegistry closedPrompt [''react'', ''--latest'', ''--autoupdate'']
           (Manifest \<lparr>dependencies = Some [(''react'', ''18.2.0''), (''react-dom'', ''18.2.0'')],
                  devDependencies = None\<rparr>)) = []
   \<and> script npm_semver exampleRegistry closedPrompt [''react'', ''--latest'', ''--autoupdate'']
        (Manifest \<lparr>dependencies = Some [(''react'', ''18.2.0''), (''react-dom'', ''18.2.0'')],
               devDependencies = None\<rparr>)
     = script npm_semver exampleRegistry firstChoice [''react'', ''--latest'', ''--autoupdate'']
        (Manifest \<lparr>dependencies = Some [(''react'', ''18.2.0''), (''react-dom'', ''18.2.0'')],
               devDependencies = None\<rparr>)"
proof -
  have l: "''--latest'' \<in> set [''react'', ''--latest'', ''--autoupdate'']" by simp
  have a: "''--autoupdate'' \<in> set [''react'', ''--latest'', ''--autoupdate'']" by simp
  let ?disk = "Manifest \<lparr>dependencies = Some [(''react'', ''18.2.0''), (''react-dom'', ''18.2.0'')],
                       devDependencies = None\<rparr>"
  let ?tr = "script npm_semver exampleRegistry closedPrompt
               [''react'', ''--latest'', ''--autoupdate''] ?disk"
  from unattended_run_never_prompts
         [OF l a, of npm_semver exampleRegistry closedPrompt ?disk firstChoice]
  have np: "\<forall>e \<in> set ?tr. \<not> isPrompt e"
    and eq: "?tr = script npm_semver exampleRegistry firstChoice
                     [''react'', ''--latest'', ''--autoupdate''] ?disk"
    by blast+
  from np have "filter isPrompt ?tr = []" by (rule filter_False)
  with l a eq show ?thesis by blast
qed

section \<open>The single write of the manifest\<close>

lemma run_shape:
  "(\<forall>e \<in> set (trace (run lib registry inquirer opts main pj)). \<not> isWrite e)
   \<or> (\<exists>earlier sel. snd (selectTarget lib registry inquirer opts main) = Some sel
        \<and> trace (run lib registry inquirer opts main pj) =
            earlier @ [WriteFile (packageJson (run lib registry inquirer opts main pj)), Updated]
        \<and> (\<forall>e \<in> set earlier. \<not> isWrite e))"
proof (cases rule: selectTarget_cases [of lib registry inquirer opts main])
  case (1 evs)
  with selectTarget_no_write [OF 1] show ?thesis
    by (simp add: run_aborted)
next
  case (2 evs sel)
  let ?earlier = "evs @ [Updating main (targetRange opts sel)] @
     concat (map (\<lambda>e. fst (decide lib registry inquirer opts main sel e))
               (getAllDependencies (applyTarget main (targetRange opts sel) pj)))"
  have "trace (run lib registry inquirer opts main pj) =
          ?earlier @ [WriteFile (packageJson (run lib registry inquirer opts main pj)), Updated]"
    using run_trace [OF 2, of pj] by simp
  moreover have "\<forall>e \<in> set ?earlier. \<not> isWrite e"
    using 2 by (rule run_no_write_before)
  moreover have "snd (selectTarget lib registry inquirer opts main) = Some sel"
    using 2 by simp
  ultimately show ?thesis by blast
qed

lemma run_written_manifest:
  "snd (selectTarget lib registry inquirer opts main) = Some sel \<Longrightarrow>
     packageJson (run lib registry inquirer opts main pj) =
       packageJson
         (fold (checkDep lib registry inquirer opts main sel)
            (getAllDependencies (applyTarget main (targetRange opts sel) pj))
            \<lparr>packageJson = applyTarget main (targetRange opts sel) pj, trace = []\<rparr>)"
  by (cases "selectTarget lib registry inquirer opts main")
     (simp add: run_packageJson fold_checkDep_packageJson)

lemma single_write_filter:
  "\<forall>e \<in> set earlier. \<not> isWrite e \<Longrightarrow> filter isWrite (earlier @ [WriteFile m, Updated]) = [WriteFile m]"
  by (simp add: isWrite_def)

lemma single_write_prefix:
  assumes "\<forall>e \<in> set earlier. \<not> isWrite e"
  shows "persisted disk (take n (earlier @ [WriteFile m, Updated])) = disk
       \<or> persisted disk (take n (earlier @ [WriteFile m, Updated])) = Manifest m"
proof (cases "n \<le> length earlier")
  case True
  then have "take n (earlier @ [WriteFile m, Updated]) = take n earlier" by simp
  moreover have "\<forall>e \<in> set (take n earlier). \<not> isWrite e"
    using assms by (auto dest: in_set_takeD)
  ultimately show ?thesis by (simp add: persisted_no_write)
next
  case False
  then obtain k where k: "n - length earlier = Suc k" by (cases "n - length earlier") auto
  with False have "take n (earlier @ [WriteFile m, Updated]) = earlier @ WriteFile m # take k [Updated]"
    by simp
  moreover have "persisted disk (earlier @ WriteFile m # take k [Updated]) = Manifest m"
    by (cases k) (simp_all add: persisted_append persisted_no_write [OF assms] persisted_def)
  ultimately show ?thesis by simp
qed

lemma single_write_whole:
  assumes "\<forall>e \<in> set earlier. \<not> isWrite e"
  shows "persisted disk (earlier @ [WriteFile m, Updated]) = Manifest m"
  by (simp add: persisted_append persisted_no_write [OF assms] persisted_def)

lemma no_write_props:
  assumes "\<forall>e \<in> set tr. \<not> isWrite e"
  shows "filter isWrite tr = []"
    and "persisted disk (take n tr) = disk"
    and "WriteFile m \<notin> set tr"
proof -
  show "filter isWrite tr = []" using assms by (rule filter_False)
  have "\<forall>e \<in> set (take n tr). \<not> isWrite e"
    using assms by (auto dest: in_set_takeD)
  then show "persisted disk (take n tr) = disk" by (rule persisted_no_write)
  show "WriteFile m \<notin> set tr" using assms by (auto simp: isWrite_def)
qed

lemma single_write_member:
  assumes "\<forall>e \<in> set earlier. \<not> isWrite e"
    and "WriteFile m \<in> set (earlier @ [WriteFile m0, Updated])"
  shows "m = m0"
  using assms by (auto simp: isWrite_def)

text \<open>
  Claim C8: the script writes the manifest at most once. A write is followed only by the
  final console message, so every fetch, prompt and decision precedes it, and what it
  writes is the manifest in memory after the loop has visited every key of the merged
  dependencies. A run cut short after any number of events leaves the file as it was,
  unless the cut falls after the write, and then the file holds the final manifest.
  Each \<open>writeFileSync\<close> is taken to replace the content in one step.
\<close>

theorem manifest_written_once_at_end:
  "length (filter isWrite (script lib registry inquirer args disk)) \<le> 1
   \<and> (\<forall>n. persisted disk (take n (script lib registry inquirer args disk)) = disk
          \<or> persisted disk (take n (script lib registry inquirer args disk)) =
              persisted disk (script lib registry inquirer args disk))
   \<and> (\<forall>m. WriteFile m \<in> set (script lib registry inquirer args disk) \<longrightarrow>
          (\<exists>earlier. script lib registry inquirer args disk = earlier @ [WriteFile m, Updated]
             \<and> (\<forall>e \<in> set earlier. \<not> isWrite e))
          \<and> (\<exists>pj main sel. disk = Manifest pj \<and> mainPkgName (parseArgs args) = Some main
                \<and> snd (selectTarget lib registry inquirer (parseArgs args) main) = Some sel
                \<and> m = packageJson
                     (fold (checkDep lib registry inquirer (parseArgs args) main sel)
                        (getAllDependencies
                           (applyTarget main (targetRange (parseArgs args) sel) pj))
                        \<lparr>packageJson = applyTarget main (targetRange (parseArgs args) sel) pj,
                         trace = []\<rparr>)))"
  (is "?once \<and> ?prefixes \<and> ?content")
proof -
  let ?tr = "script lib registry inquirer args disk"
  consider (quiet) "\<forall>e \<in> set ?tr. \<not> isWrite e"
    | (wrote) pj main sel earlier where
        "disk = Manifest pj" "mainPkgName (parseArgs args) = Some main"
        "snd (selectTarget lib registry inquirer (parseArgs args) main) = Some sel"
        "?tr = earlier @ [WriteFile (packageJson (run lib registry inquirer (parseArgs args) main pj)), Updated]"
        "\<forall>e \<in> set earlier. \<not> isWrite e"
  proof (cases "mainPkgName (parseArgs args)")
    case None
    then have "\<forall>e \<in> set ?tr. \<not> isWrite e" by (simp add: script_def isWrite_def)
    then show ?thesis by (rule that(1))
  next
    case (Some main)
    show ?thesis
    proof (cases "main = [] \<or> disk = Missing \<or> disk = Unparseable")
      case True
      with Some have "\<forall>e \<in> set ?tr. \<not> isWrite e"
        by (auto simp: script_def isWrite_def)
      then show ?thesis by (rule that(1))
    next
      case False
      then obtain pj where "disk = Manifest pj" and "main \<noteq> []"
        by (cases disk) auto
      with \<open>mainPkgName (parseArgs args) = Some main\<close>
      have tr: "?tr = trace (run lib registry inquirer (parseArgs args) main pj)"
        by (simp add: script_def)
      from run_shape [of lib registry inquirer "parseArgs args" main pj] show ?thesis
      proof
        assume "\<forall>e \<in> set (trace (run lib registry inquirer (parseArgs args) main pj)). \<not> isWrite e"
        with tr have "\<forall>e \<in> set ?tr. \<not> isWrite e" by simp
        then show ?thesis by (rule that(1))
      next
        assume "\<exists>earlier sel. snd (selectTarget lib registry inquirer (parseArgs args) main) = Some sel
          \<and> trace (run lib registry inquirer (parseArgs args) main pj) =
              earlier @ [WriteFile (packageJson (run lib registry inquirer (parseArgs args) main pj)), Updated]
          \<and> (\<forall>e \<in> set earlier. \<not> isWrite e)"
        then obtain earlier sel where
          "snd (selectTarget lib registry inquirer (parseArgs args) main) = Some sel"
          "trace (run lib registry inquirer (parseArgs args) main pj) =
              earlier @ [WriteFile (packageJson (run lib registry inquirer (parseArgs args) main pj)), Updated]"
          "\<forall>e \<in> set earlier. \<not> isWrite e"
          by blast
        with tr \<open>disk = Manifest pj\<close> \<open>mainPkgName (parseArgs args) = Some main\<close> show ?thesis
          by (intro that(2) [of pj main sel earlier]) simp_all
      qed
    qed
  qed
  then show ?thesis
  proof cases
    case quiet
    from no_write_props [OF quiet] show ?thesis by simp
  next
    case (wrote pj main sel earlier)
    let ?m = "packageJson (run lib registry inquirer (parseArgs args) main pj)"
    have once: ?once
      by (simp only: wrote(4) single_write_filter [OF wrote(5)]) simp
    have prefixes: ?prefixes
      using single_write_prefix [OF wrote(5), of disk _ ?m] single_write_whole [OF wrote(5), of disk ?m]
      by (simp add: wrote(4))
    have content: ?content
    proof (intro allI impI)
      fix m assume "WriteFile m \<in> set ?tr"
      with wrote(4,5) have m: "m = ?m" by (auto simp: isWrite_def)
      have "\<exists>earlier. ?tr = earlier @ [WriteFile m, Updated] \<and> (\<forall>e \<in> set earlier. \<not> isWrite e)"
        using wrote(4,5) m by blast
      moreover have "\<exists>pj main sel. disk = Manifest pj \<and> mainPkgName (parseArgs args) = Some main
                \<and> snd (selectTarget lib registry inquirer (parseArgs args) main) = Some sel
                \<and> m = packageJson
                     (fold (checkDep lib registry inquirer (parseArgs args) main sel)
                        (getAllDependencies
                           (applyTarget main (targetRange (parseArgs args) sel) pj))
                        \<lparr>packageJson = applyTarget main (targetRange (parseArgs args) sel) pj,
                         trace = []\<rparr>)"
        using wrote(1,2,3) m run_written_manifest [OF wrote(3), of pj] by blast
      ultimately show "(\<exists>earlier. ?tr = earlier @ [WriteFile m, Updated] \<and> (\<forall>e \<in> set earlier. \<not> isWrite e))
          \<and> (\<exists>pj main sel. disk = Manifest pj \<and> mainPkgName (parseArgs args) = Some main
                \<and> snd (selectTarget lib registry inquirer (parseArgs args) main) = Some sel
                \<and> m = packageJson
                     (fold (checkDep lib registry inquirer (parseArgs args) main sel)
                        (getAllDependencies
                           (applyTarget main (targetRange (parseArgs args) sel) pj))
                        \<lparr>packageJson = applyTarget main (targetRange (parseArgs args) sel) pj,
                         trace = []\<rparr>))"
        by blast
    qed
    from once prefixes content show ?thesis by blast
  qed
qed

theorem manifest_written_once_at_end_witness:
  "WriteFile \<lparr>dependencies = Some [(''react'', ''^19.1.0''), (''react-dom'', ''19.1.0'')],
              devDependencies = None\<rparr>
     \<in> set (script npm_semver exampleRegistry closedPrompt [''react'', ''--latest'', ''--autoupdate'']
              (Manifest \<lparr>dependencies = Some [(''react'', ''18.2.0''), (''react-dom'', ''18.2.0'')],
                     devDependencies = None\<rparr>))
   \<and> length (filter isWrite
        (script npm_semver exampleRegistry closedPrompt [''react'', ''--latest'', ''--autoupdate'']
           (Manifest \<lparr>dependencies = Some [(''react'', ''18.2.0''), (''react-dom'', ''18.2.0'')],
                  devDependencies = None\<rparr>))) \<le> 1
   \<and> (\<exists>earlier.
         script npm_semver exampleRegistry closedPrompt [''react'', ''--latest'', ''--autoupdate'']
           (Manifest \<lparr>dependencies = Some [(''react'', ''18.2.0''), (''react-dom'', ''18.2.0'')],
                  devDependencies = None\<rparr>)
         = earlier @
           [WriteFile \<lparr>dependencies = Some [(''react'', ''^19.1.0''), (''react-dom'', ''19.1.0'')],
                       devDependencies = None\<rparr>, Updated]
         \<and> (\<forall>e \<in> set earlier. \<not> isWrite e))
   \<and> persisted
        (Manifest \<lparr>dependencies = Some [(''react'', ''18.2.0''), (''react-dom'', ''18.2.0'')],
               devDependencies = None\<rparr>)
        (take 6
          (script npm_semver exampleRegistry closedPrompt [''react'', ''--latest'', ''--autoupdate'']
             (Manifest \<lparr>dependencies = Some [(''react'', ''18.2.0''), (''react-dom'', ''18.2.0'')],
                    devDependencies = None\<rparr>)))
       = Manifest \<lparr>dependencies = Some [(''react'', ''18.2.0''), (''react-dom'', ''18.2.0'')],
               devDependencies = None\<rparr>"
proof -
  let ?disk = "Manifest \<lparr>dependencies = Some [(''react'', ''18.2.0''), (''react-dom'', ''18.2.0'')],
                       devDependencies = None\<rparr>"
  let ?m = "\<lparr>dependencies = Some [(''react'', ''^19.1.0''), (''react-dom'', ''19.1.0'')],
             devDependencies = None\<rparr>"
  let ?tr = "script npm_semver exampleRegistry closedPrompt
               [''react'', ''--latest'', ''--autoupdate''] ?disk"
  have w: "WriteFile ?m \<in> set ?tr" by code_simp
  have neq: "persisted ?disk (take 6 ?tr) \<noteq> persisted ?disk ?tr" by code_simp
  note at_example = manifest_written_once_at_end
               [of npm_semver exampleRegistry closedPrompt
                   "[''react'', ''--latest'', ''--autoupdate'']" ?disk]
  from at_example have once: "length (filter isWrite ?tr) \<le> 1" by (rule conjunct1)
  from at_example have "\<forall>n. persisted ?disk (take n ?tr) = ?disk
          \<or> persisted ?disk (take n ?tr) = persisted ?disk ?tr"
    by (rule conjunct2 [THEN conjunct1])
  then have "persisted ?disk (take 6 ?tr) = ?disk
          \<or> persisted ?disk (take 6 ?tr) = persisted ?disk ?tr" by (rule spec)
  with neq have cut: "persisted ?disk (take 6 ?tr) = ?disk" by blast
  from at_example have "\<forall>m. WriteFile m \<in> set ?tr \<longrightarrow>
          (\<exists>earlier. ?tr = earlier @ [WriteFile m, Updated] \<and> (\<forall>e \<in> set earlier. \<not> isWrite e))
          \<and> (\<exists>pj main sel. ?disk = Manifest pj
                \<and> mainPkgName (parseArgs [''react'', ''--latest'', ''--autoupdate'']) = Some main
                \<and> snd (selectTarget npm_semver exampleRegistry closedPrompt
                         (parseArgs [''react'', ''--latest'', ''--autoupdate'']) main) = Some sel
                \<and> m = packageJson
                     (fold (checkDep npm_semver exampleRegistry closedPrompt
                              (parseArgs [''react'', ''--latest'', ''--autoupdate'']) main sel)
                        (getAllDependencies
                           (applyTarget main
                              (targetRange (parseArgs [''react'', ''--latest'', ''--autoupdate'']) sel) pj))
                        \<lparr>packageJson = applyTarget main
                              (targetRange (parseArgs [''react'', ''--latest'', ''--autoupdate'']) sel) pj,
                         trace = []\<rparr>))"
    by (rule conjunct2 [THEN conjunct2])
  then have "WriteFile ?m \<in> set ?tr \<longrightarrow>
          (\<exists>earlier. ?tr = earlier @ [WriteFile ?m, Updated] \<and> (\<forall>e \<in> set earlier. \<not> isWrite e))
          \<and> (\<exists>pj main sel. ?disk = Manifest pj
                \<and> mainPkgName (parseArgs [''react'', ''--latest'', ''--autoupdate'']) = Some main
                \<and> snd (selectTarget npm_semver exampleRegistry closedPrompt
                         (parseArgs [''react'', ''--latest'', ''--autoupdate'']) main) = Some sel
                \<and> ?m = packageJson
                     (fold (checkDep npm_semver exampleRegistry closedPrompt
                              (parseArgs [''react'', ''--latest'', ''--autoupdate'']) main sel)
                        (getAllDependencies
                           (applyTarget main
                              (targetRange (parseArgs [''react'', ''--latest'', ''--autoupdate'']) sel) pj))
                        \<lparr>packageJson = applyTarget main
                              (targetRange (parseArgs [''react'', ''--latest'', ''--autoupdate'']) sel) pj,
                         trace = []\<rparr>))"
    by (rule spec)
  from this w have "\<exists>earlier. ?tr = earlier @ [WriteFile ?m, Updated] \<and> (\<forall>e \<in> set earlier. \<not> isWrite e)"
    by (rule mp [THEN conjunct1])
  with w once cut show ?thesis by blast
qed

section \<open>Entries whose range is the empty string\<close>

text \<open>
  Lines 124, 126, 184 and 186 decide where to write by the truthiness of the current value,
  so an entry with the empty range (which npm reads as \<open>*\<close>) is treated like a missing
  one, and a name that \<open>Object.prototype\<close> has is treated like a declared one. For a
  name that \<open>Object.prototype\<close> does not have and entries with a non-empty range the
  script places its writes as follows.
\<close>

lemma truthy_get_key:
  "k \<notin> set objectPrototype \<Longrightarrow> truthy (get ob k) \<Longrightarrow> k \<in> keysOf ob"
proof -
  assume "k \<notin> set objectPrototype" and "truthy (get ob k)"
  then obtain s where "own ob k = Some s"
    by (auto simp: truthy_get_own split: option.splits)
  then have "own ob k \<noteq> None" by simp
  then show ?thesis by (simp add: own_None_iff)
qed

lemma keysOf_assign_present: "k \<in> keysOf ob \<Longrightarrow> keysOf (assign k v ob) = keysOf ob"
  using keysOf_assign [where k = k and v = v and ob = ob] by auto

lemma applyTarget_placement:
  assumes plain: "main \<notin> set objectPrototype"
  shows "truthy (get (dependencies pj) main) \<Longrightarrow>
     own (dependencies (applyTarget main v pj)) main = Some v \<and>
     devDependencies (applyTarget main v pj) = devDependencies pj"
  and "main \<notin> keysOf (dependencies pj) \<Longrightarrow> truthy (get (devDependencies pj) main) \<Longrightarrow>
     own (devDependencies (applyTarget main v pj)) main = Some v \<and>
     dependencies (applyTarget main v pj) = dependencies pj"
  and "main \<notin> keysOf (dependencies pj) \<Longrightarrow> main \<notin> keysOf (devDependencies pj) \<Longrightarrow>
     own (dependencies (applyTarget main v pj)) main = Some v \<and>
     devDependencies (applyTarget main v pj) = devDependencies pj"
proof -
  from plain have np: "main \<noteq> ''__proto__''"
    by (auto simp: proto_in_objectPrototype)
  show "own (dependencies (applyTarget main v pj)) main = Some v \<and>
     devDependencies (applyTarget main v pj) = devDependencies pj"
    if "truthy (get (dependencies pj) main)"
  proof -
    from that plain obtain s where "own (dependencies pj) main = Some s"
      by (auto simp: truthy_get_own split: option.splits)
    with that np show ?thesis
      by (auto simp: applyTarget_def own_assign dest: own_Some_present)
  qed
  show "own (devDependencies (applyTarget main v pj)) main = Some v \<and>
     dependencies (applyTarget main v pj) = dependencies pj"
    if "main \<notin> keysOf (dependencies pj)" "truthy (get (devDependencies pj) main)"
  proof -
    from that(1) plain have f: "\<not> truthy (get (dependencies pj) main)"
      by (auto dest: truthy_get_key)
    from that(2) plain obtain s where "own (devDependencies pj) main = Some s"
      by (auto simp: truthy_get_own split: option.splits)
    with that f np show ?thesis
      by (auto simp: applyTarget_def own_assign dest: own_Some_present)
  qed
  show "own (dependencies (applyTarget main v pj)) main = Some v \<and>
     devDependencies (applyTarget main v pj) = devDependencies pj"
    if "main \<notin> keysOf (dependencies pj)" "main \<notin> keysOf (devDependencies pj)"
  proof -
    from that plain have f: "\<not> truthy (get (dependencies pj) main)"
      "\<not> truthy (get (devDependencies pj) main)"
      by (auto dest: truthy_get_key)
    with np show ?thesis
      by (simp add: applyTarget_def own_simps map_of_assignProp)
  qed
qed

text \<open>
  No key is ever removed. A key that is added is the target under \<open>dependencies\<close>, or a
  name that \<open>Object.prototype\<close> has: for such a name lines 124, 126, 184 and 186 read
  the inherited property of an object that lacks the key, and the assignment creates it.
\<close>

lemma writeDep_keys_inherited:
  "keysOf (dependencies (writeDep d v pj)) \<subseteq> keysOf (dependencies pj) \<union> set objectPrototype"
  "keysOf (devDependencies (writeDep d v pj)) \<subseteq> keysOf (devDependencies pj) \<union> set objectPrototype"
proof -
  show "keysOf (dependencies (writeDep d v pj)) \<subseteq> keysOf (dependencies pj) \<union> set objectPrototype"
  proof (cases "d \<in> set objectPrototype")
    case True
    with writeDep_keys(3) [of d v pj] show ?thesis by auto
  next
    case False
    then show ?thesis
      by (auto simp: writeDep_def keysOf_assign_present dest: truthy_get_key)
  qed
  show "keysOf (devDependencies (writeDep d v pj)) \<subseteq> keysOf (devDependencies pj) \<union> set objectPrototype"
  proof (cases "d \<in> set objectPrototype")
    case True
    with writeDep_keys(4) [of d v pj] show ?thesis by auto
  next
    case False
    then show ?thesis
      by (auto simp: writeDep_def keysOf_assign_present dest: truthy_get_key)
  qed
qed

lemma applyDecision_keys_inherited:
  "keysOf (dependencies (applyDecision e d pj)) \<subseteq> keysOf (dependencies pj) \<union> set objectPrototype"
  "keysOf (devDependencies (applyDecision e d pj)) \<subseteq> keysOf (devDependencies pj) \<union> set objectPrototype"
  using writeDep_keys_inherited [where pj = pj and d = "fst e"]
  by (auto simp: applyDecision_def split: option.splits)

lemma loop_keys:
  "keysOf (dependencies pj) \<subseteq> keysOf (dependencies (fold (\<lambda>e. applyDecision e (D e)) al pj))"
  "keysOf (devDependencies pj) \<subseteq> keysOf (devDependencies (fold (\<lambda>e. applyDecision e (D e)) al pj))"
  "keysOf (dependencies (fold (\<lambda>e. applyDecision e (D e)) al pj))
     \<subseteq> keysOf (dependencies pj) \<union> set objectPrototype"
  "keysOf (devDependencies (fold (\<lambda>e. applyDecision e (D e)) al pj))
     \<subseteq> keysOf (devDependencies pj) \<union> set objectPrototype"
proof (induction al arbitrary: pj)
  case Nil
  {
    case 1 show ?case by simp
  next
    case 2 show ?case by simp
  next
    case 3 show ?case by simp
  next
    case 4 show ?case by simp
  }
next
  case (Cons a al)
  {
    case 1
    from Cons.IH(1) [of "applyDecision a (D a) pj"] applyDecision_keys(1) [of pj a "D a"]
    show ?case by auto
  next
    case 2
    from Cons.IH(2) [of "applyDecision a (D a) pj"] applyDecision_keys(2) [of pj a "D a"]
    show ?case by auto
  next
    case 3
    from Cons.IH(3) [of "applyDecision a (D a) pj"] applyDecision_keys_inherited(1) [of a "D a" pj]
    show ?case by auto
  next
    case 4
    from Cons.IH(4) [of "applyDecision a (D a) pj"] applyDecision_keys_inherited(2) [of a "D a" pj]
    show ?case by auto
  }
qed

lemma applyTarget_keys_inherited:
  "keysOf (devDependencies (applyTarget main v pj)) \<subseteq> keysOf (devDependencies pj) \<union> set objectPrototype"
proof (cases "main \<in> set objectPrototype")
  case True
  with applyTarget_keys(4) [of main v pj] show ?thesis by auto
next
  case False
  then show ?thesis
    by (auto simp: applyTarget_def keysOf_assign_present dest: truthy_get_key)
qed

lemma run_frame:
  "keysOf (dependencies pj) \<subseteq> keysOf (dependencies (packageJson (run lib registry inquirer opts main pj)))
   \<and> keysOf (devDependencies pj)
       \<subseteq> keysOf (devDependencies (packageJson (run lib registry inquirer opts main pj)))
   \<and> keysOf (dependencies (packageJson (run lib registry inquirer opts main pj)))
       \<subseteq> insert main (keysOf (dependencies pj)) \<union> set objectPrototype
   \<and> keysOf (devDependencies (packageJson (run lib registry inquirer opts main pj)))
       \<subseteq> keysOf (devDependencies pj) \<union> set objectPrototype"
proof (cases rule: selectTarget_cases [of lib registry inquirer opts main])
  case (1 evs)
  then show ?thesis by (auto simp: run_aborted)
next
  case (2 evs sel)
  let ?pj = "applyTarget main (targetRange opts sel) pj"
  let ?D = "decide lib registry inquirer opts main sel"
  note fin = run_packageJson [OF 2, of pj]
  note l = loop_keys [where pj = ?pj and D = ?D and al = "getAllDependencies ?pj"]
  note t = applyTarget_keys [where pj = pj and main = main and v = "targetRange opts sel"]
  note ti = applyTarget_keys_inherited [where pj = pj and main = main and v = "targetRange opts sel"]
  have a: "keysOf (dependencies pj) \<subseteq> keysOf (dependencies (packageJson (run lib registry inquirer opts main pj)))"
    using l(1) t(1) unfolding fin by blast
  have b: "keysOf (devDependencies pj)
       \<subseteq> keysOf (devDependencies (packageJson (run lib registry inquirer opts main pj)))"
    using l(2) t(2) unfolding fin by blast
  have c: "keysOf (dependencies (packageJson (run lib registry inquirer opts main pj)))
       \<subseteq> insert main (keysOf (dependencies pj)) \<union> set objectPrototype"
    using l(3) t(3) unfolding fin by blast
  have d: "keysOf (devDependencies (packageJson (run lib registry inquirer opts main pj)))
       \<subseteq> keysOf (devDependencies pj) \<union> set objectPrototype"
    using l(4) ti unfolding fin by blast
  from a b c d show ?thesis by simp
qed

lemma replacement_in_both_classes:
  assumes wf: "wellFormed pj"
    and st: "snd (selectTarget lib registry inquirer opts main) = Some sel"
    and ne: "dep \<noteq> main"
    and plain: "dep \<notin> set objectPrototype"
    and a: "own (dependencies pj) dep = Some a" "a \<noteq> []"
    and b: "own (devDependencies pj) dep = Some b"
  shows "map_of (getAllDependencies pj) dep = Some b
       \<and> own (devDependencies (packageJson (run lib registry inquirer opts main pj))) dep = Some b
       \<and> own (dependencies (packageJson (run lib registry inquirer opts main pj))) dep =
           (case snd (decide lib registry inquirer opts main sel (dep, b)) of
              None \<Rightarrow> Some a
            | Some v \<Rightarrow> Some v)"
proof -
  from wf b have inst: "map_of (getAllDependencies pj) dep = Some b"
    by (simp add: map_of_getAllDependencies)
  show ?thesis
  proof (cases "snd (decide lib registry inquirer opts main sel (dep, b))")
    case None
    with run_entry_untouched(1) [OF wf st ne inst None]
      run_entry_untouched(2) [OF wf st ne inst None] a b inst
    show ?thesis by simp
  next
    case (Some v)
    with run_entry_written(1) [OF wf st ne inst Some plain]
      run_entry_written(2) [OF wf st ne inst Some plain] a b inst
    show ?thesis by simp
  qed
qed

text \<open>
  The version chosen for the target: with \<open>--latest\<close> the first version of the stable
  list, written with a caret; without it the operator's answer, written as it is.
\<close>

lemma selected_latest:
  "useLatest opts \<Longrightarrow> registry main = Inr m \<Longrightarrow> versions m = Some vs \<Longrightarrow>
     stableVersions lib vs = first # rest \<Longrightarrow>
     snd (selectTarget lib registry inquirer opts main) = Some first \<and>
     targetRange opts first = CHR ''^'' # first"
  by (simp add: selectTarget_def targetRange_def)

lemma selected_by_operator:
  "\<not> useLatest opts \<Longrightarrow> registry main = Inr m \<Longrightarrow> versions m = Some vs \<Longrightarrow>
     stableVersions lib vs = first # rest \<Longrightarrow>
     inquirer main (take 50 (first # rest)) = Inr answer \<Longrightarrow>
     snd (selectTarget lib registry inquirer opts main) = Some answer \<and>
     targetRange opts answer = answer"
  by (simp add: selectTarget_def targetRange_def)

lemma target_entry_written:
  assumes st: "snd (selectTarget lib registry inquirer opts main) = Some sel"
    and plain: "main \<notin> set objectPrototype"
  shows "truthy (get (dependencies pj) main) \<Longrightarrow>
           own (dependencies (packageJson (run lib registry inquirer opts main pj))) main =
             Some (targetRange opts sel) \<and>
           own (devDependencies (packageJson (run lib registry inquirer opts main pj))) main =
             own (devDependencies pj) main"
    and "main \<notin> keysOf (dependencies pj) \<Longrightarrow> truthy (get (devDependencies pj) main) \<Longrightarrow>
           own (devDependencies (packageJson (run lib registry inquirer opts main pj))) main =
             Some (targetRange opts sel) \<and>
           own (dependencies (packageJson (run lib registry inquirer opts main pj))) main = None"
    and "main \<notin> keysOf (dependencies pj) \<Longrightarrow> main \<notin> keysOf (devDependencies pj) \<Longrightarrow>
           own (dependencies (packageJson (run lib registry inquirer opts main pj))) main =
             Some (targetRange opts sel) \<and>
           own (devDependencies (packageJson (run lib registry inquirer opts main pj))) main = None"
proof -
  from run_target_entry [OF st, of pj]
  have same: "own (dependencies (packageJson (run lib registry inquirer opts main pj))) main =
      own (dependencies (applyTarget main (targetRange opts sel) pj)) main"
    "own (devDependencies (packageJson (run lib registry inquirer opts main pj))) main =
      own (devDependencies (applyTarget main (targetRange opts sel) pj)) main"
    by (simp_all add: agreeAt_def)
  show "own (dependencies (packageJson (run lib registry inquirer opts main pj))) main =
             Some (targetRange opts sel) \<and>
           own (devDependencies (packageJson (run lib registry inquirer opts main pj))) main =
             own (devDependencies pj) main"
    if "truthy (get (dependencies pj) main)"
    using applyTarget_placement(1) [OF plain that, of "targetRange opts sel"]
    by (simp add: same)
  show "own (devDependencies (packageJson (run lib registry inquirer opts main pj))) main =
             Some (targetRange opts sel) \<and>
           own (dependencies (packageJson (run lib registry inquirer opts main pj))) main = None"
    if "main \<notin> keysOf (dependencies pj)" "truthy (get (devDependencies pj) main)"
    using applyTarget_placement(2) [OF plain that, of "targetRange opts sel"] that(1)
    by (simp add: same own_None_iff)
  show "own (dependencies (packageJson (run lib registry inquirer opts main pj))) main =
             Some (targetRange opts sel) \<and>
           own (devDependencies (packageJson (run lib registry inquirer opts main pj))) main = None"
    if "main \<notin> keysOf (dependencies pj)" "main \<notin> keysOf (devDependencies pj)"
    using applyTarget_placement(3) [OF plain that, of "targetRange opts sel"] that(2)
    by (simp add: same own_None_iff)
qed

text \<open>
  A dependency named \<open>constructor\<close>, declared under \<open>devDependencies\<close> only: line 184
  reads the function inherited by \<open>dependencies\<close>, and line 185 creates the key there.
\<close>

lemma inherited_name_key_added:
  "''constructor'' \<noteq> ''react''
   \<and> ''constructor'' \<notin> keysOf (dependencies
        \<lparr>dependencies = Some [(''react'', ''18.2.0'')],
         devDependencies = Some [(''constructor'', ''^1.0.0'')]\<rparr>)
   \<and> persisted
        (Manifest \<lparr>dependencies = Some [(''react'', ''18.2.0'')],
                   devDependencies = Some [(''constructor'', ''^1.0.0'')]\<rparr>)
        (script npm_semver inheritedNameRegistry closedPrompt [''react'', ''--latest'', ''--autoupdate'']
           (Manifest \<lparr>dependencies = Some [(''react'', ''18.2.0'')],
                      devDependencies = Some [(''constructor'', ''^1.0.0'')]\<rparr>))
       = Manifest \<lparr>dependencies = Some [(''react'', ''^19.1.0''), (''constructor'', ''2.0.0'')],
                   devDependencies = Some [(''constructor'', ''^1.0.0'')]\<rparr>"
  by code_simp

text \<open>
  Claim C5 says that the target is written under \<open>devDependencies\<close> when it is present
  there and not under \<open>dependencies\<close>. For a manifest whose only entry is
  \<open>devDependencies: {"react": ""}\<close> the script run as \<open>react --latest\<close> leaves that
  entry alone and creates \<open>react\<close> under \<open>dependencies\<close>.
\<close>

theorem target_with_empty_range_under_devDependencies:
  "persisted
     (Manifest \<lparr>dependencies = None, devDependencies = Some [(''react'', '''')]\<rparr>)
     (script npm_semver exampleRegistry closedPrompt [''react'', ''--latest'']
        (Manifest \<lparr>dependencies = None, devDependencies = Some [(''react'', '''')]\<rparr>))
   = Manifest \<lparr>dependencies = Some [(''react'', ''^19.1.0'')],
           devDependencies = Some [(''react'', '''')]\<rparr>"
  by code_simp

text \<open>
  Claim C9 says that for a package in both classes a replacement goes to the
  \<open>dependencies\<close> entry and leaves the \<open>devDependencies\<close> entry unchanged. For
  \<open>dependencies: {"foo": ""}\<close> and \<open>devDependencies: {"foo": "^1.0.0"}\<close> the range
  used is \<open>^1.0.0\<close>, and the replacement 2.0.0 is written under \<open>devDependencies\<close>
  while the \<open>dependencies\<close> entry stays empty.
\<close>

theorem replacement_written_under_devDependencies:
  "map_of (getAllDependencies
      \<lparr>dependencies = Some [(''foo'', '''')], devDependencies = Some [(''foo'', ''^1.0.0'')]\<rparr>)
      ''foo'' = Some ''^1.0.0''
   \<and> persisted
     (Manifest \<lparr>dependencies = Some [(''foo'', '''')], devDependencies = Some [(''foo'', ''^1.0.0'')]\<rparr>)
     (script npm_semver exampleRegistry closedPrompt [''react'', ''--latest'', ''--autoupdate'']
        (Manifest \<lparr>dependencies = Some [(''foo'', '''')],
               devDependencies = Some [(''foo'', ''^1.0.0'')]\<rparr>))
   = Manifest \<lparr>dependencies = Some [(''foo'', ''''), (''react'', ''^19.1.0'')],
           devDependencies = Some [(''foo'', ''2.0.0'')]\<rparr>"
  by code_simp

text \<open>
  Claim C10 says that the target's key is added under \<open>dependencies\<close> when the target
  is absent from both classes. For \<open>devDependencies: {"react": ""}\<close> the key is added
  under \<open>dependencies\<close> although the target is declared under \<open>devDependencies\<close>.
  In every run no key is removed, and a key that is added is the target under
  \<open>dependencies\<close> or a name that \<open>Object.prototype\<close> has, see \<open>run_frame\<close> and
  \<open>inherited_name_key_added\<close>.
\<close>

theorem target_key_added_while_declared:
  "''react'' \<in> keysOf (devDependencies
      \<lparr>dependencies = Some [(''react-dom'', ''^19.0.0'')],
       devDependencies = Some [(''react'', '''')]\<rparr>)
   \<and> ''react'' \<notin> keysOf (dependencies
      \<lparr>dependencies = Some [(''react-dom'', ''^19.0.0'')],
       devDependencies = Some [(''react'', '''')]\<rparr>)
   \<and> ''react'' \<in> keysOf (dependencies (packageJson
        (run npm_semver exampleRegistry closedPrompt (parseArgs [''react'', ''--latest'']) ''react''
           \<lparr>dependencies = Some [(''react-dom'', ''^19.0.0'')],
            devDependencies = Some [(''react'', '''')]\<rparr>)))"
  by code_simp

end
